theory Spec2Isabelle
  imports Main "HOL-Library.Sublist"
begin

text \<open>
  The augmentation tool of \<open>main.py\<close> and \<open>schemas.py\<close>: the functions that parse a
  completion and format the clipboard text, the two reviews and the loop of \<open>main\<close>, with
  the operator, the completion endpoint, the terminal and the clipboard made explicit.
\<close>

section \<open>Strings\<close>

text \<open>
  A Python \<open>str\<close> is a \<^typ>\<open>string\<close>: a list of characters, each read as the code point
  of that number (the code points below 256, which hold the Spanish templates of
  \<open>main.py\<close>: \<open>CHR 0xE1\<close> is a-acute, \<open>CHR 0xF3\<close> is o-acute). On these code points
  \<open>str.strip()\<close> removes the characters of \<open>isspace\<close> below, and the pattern \<open>\d\<close>
  matches the ten ASCII digits.
\<close>

definition newline :: char where
  "newline = CHR 0x0A"

definition dquote :: char where
  "dquote = CHR 0x22"

definition isspace :: "char \<Rightarrow> bool" where
  "isspace c \<longleftrightarrow> List.member [CHR 0x09, CHR 0x0A, CHR 0x0B, CHR 0x0C, CHR 0x0D,
     CHR 0x1C, CHR 0x1D, CHR 0x1E, CHR 0x1F, CHR 0x20, CHR 0x85, CHR 0xA0] c"

definition isdigit :: "char \<Rightarrow> bool" where
  "isdigit c \<longleftrightarrow> List.member ''0123456789'' c"

text \<open>\<open>s.strip()\<close>: leading and trailing whitespace removed.\<close>

definition strip :: "string \<Rightarrow> string" where
  "strip s = rev (dropWhile isspace (rev (dropWhile isspace s)))"

text \<open>
  \<open>s.split(sep)\<close> for a one-character separator: \<open>cur\<close> is the piece read so far. The
  empty string gives \<open>['']\<close>.
\<close>

fun split_loop :: "char \<Rightarrow> string \<Rightarrow> string \<Rightarrow> string list" where
  "split_loop sep cur [] = [cur]"
| "split_loop sep cur (c # cs) =
     (if c = sep then cur # split_loop sep [] cs else split_loop sep (cur @ [c]) cs)"

definition split :: "char \<Rightarrow> string \<Rightarrow> string list" where
  "split sep s = split_loop sep [] s"

text \<open>\<open>s.startswith(p)\<close> is \<^const>\<open>prefix\<close>; \<open>s[n:]\<close> is \<^const>\<open>drop\<close>.\<close>

text \<open>\<open>sep.join(xs)\<close>.\<close>

fun join :: "string \<Rightarrow> string list \<Rightarrow> string" where
  "join sep [] = []"
| "join sep [x] = x"
| "join sep (x # y # ys) = x @ sep @ join sep (y # ys)"

text \<open>
  \<open>s.partition(sep)\<close> for a one-character separator: the text before the first \<open>sep\<close>,
  and what follows it when there is one.
\<close>

definition str_partition :: "char \<Rightarrow> string \<Rightarrow> string \<times> string option" where
  "str_partition sep s =
     (takeWhile (\<lambda>c. c \<noteq> sep) s,
      case dropWhile (\<lambda>c. c \<noteq> sep) s of [] \<Rightarrow> None | c # r \<Rightarrow> Some r)"

text \<open>\<open>str(n)\<close> for a natural number, and for an integer.\<close>

fun str_nat :: "nat \<Rightarrow> string" where
  "str_nat n =
     (if n < 10 then [''0123456789'' ! n]
      else str_nat (n div 10) @ [''0123456789'' ! (n mod 10)])"

declare str_nat.simps [simp del]

definition str_int :: "int \<Rightarrow> string" where
  "str_int i = (if i < 0 then CHR ''-'' # str_nat (nat (- i)) else str_nat (nat i))"

section \<open>The constants of main.py\<close>

text \<open>
  \<open>PROMPT_TO_GENERATE.format(rune_name=..., invert=..., text=...)\<close> and
  \<open>PROMPT_TO_SUMMARY.format(text=...)\<close>: the templates as functions of their fields.
\<close>

definition PROMPT_TO_GENERATE :: "string \<Rightarrow> string \<Rightarrow> string \<Rightarrow> string" where
  "PROMPT_TO_GENERATE rune_name invert text =
     ''Escribe 10 p'' @ [CHR 0xE1] @ ''rrafos que sean variaci'' @ [CHR 0xF3]
     @ ''n del siguiente p'' @ [CHR 0xE1] @ ''rrafo:'' @ [newline, newline]
     @ ''la runa '' @ rune_name @ invert @ '': '' @ text @ [newline, newline]
     @ ''Pero no te salgas de la runa '' @ rune_name @ invert @ [newline]"

definition PROMPT_TO_SUMMARY :: "string \<Rightarrow> string" where
  "PROMPT_TO_SUMMARY text =
     ''Resume bien resumido este p'' @ [CHR 0xE1] @ ''rrafo sin agregar nada m''
     @ [CHR 0xE1] @ ''s: '' @ text"

text \<open>
  \<open>REGEX_ITEM = re.compile(r'\d+\.')\<close>. \<open>REGEX_ITEM_match s\<close> is a match of the pattern at
  the start of \<open>s\<close>: the greedy run of digits must be non-empty and followed by a period
  (with fewer digits the next character is a digit, so backtracking finds nothing more);
  it returns what follows the match.
\<close>

definition REGEX_ITEM_match :: "string \<Rightarrow> string option" where
  "REGEX_ITEM_match s =
     (if takeWhile isdigit s = [] then None
      else case dropWhile isdigit s of
             [] \<Rightarrow> None
           | c # rest \<Rightarrow> if c = CHR ''.'' then Some rest else None)"

text \<open>
  \<open>REGEX_ITEM.sub('', s)\<close>: every non-overlapping match, leftmost first, is replaced by
  the empty string; where no match starts, the character is kept.
\<close>

function REGEX_ITEM_sub :: "string \<Rightarrow> string" where
  "REGEX_ITEM_sub [] = []"
| "REGEX_ITEM_sub (c # cs) =
     (case REGEX_ITEM_match (c # cs) of
        Some rest \<Rightarrow> REGEX_ITEM_sub rest
      | None \<Rightarrow> c # REGEX_ITEM_sub cs)"
  by pat_completeness auto
termination
proof (relation "measure length")
  fix c cs rest
  assume "REGEX_ITEM_match (c # cs) = Some rest"
  then obtain d where "dropWhile isdigit (c # cs) = d # rest"
    unfolding REGEX_ITEM_match_def by (auto split: list.splits if_splits)
  moreover have "length (dropWhile isdigit (c # cs)) \<le> length (c # cs)"
    by (rule length_dropWhile_le)
  ultimately show "(rest, c # cs) \<in> measure length" by simp
qed simp_all

section \<open>The pure functions of main.py\<close>

definition parse_response :: "string \<Rightarrow> string list" where
  "parse_response response =
     (let options = split newline response
      in map (\<lambda>x. strip (REGEX_ITEM_sub x)) (filter (\<lambda>x. strip x \<noteq> []) options))"

definition get_only_the_rune_name :: "string \<Rightarrow> string" where
  "get_only_the_rune_name rune_name =
     (if prefix ''RUNA'' rune_name then strip (drop (length ''RUNA'') rune_name)
      else rune_name)"

text \<open>
  The loop of \<open>create_string_from_list\<close> over \<open>enumerate(items)\<close>: \<open>n\<close> is \<open>len(items)\<close>,
  \<open>i\<close> the index of the next item, \<open>copied\<close> the string built so far.
\<close>

fun create_string_from_list_loop :: "nat \<Rightarrow> nat \<Rightarrow> string list \<Rightarrow> string \<Rightarrow> string" where
  "create_string_from_list_loop n i [] copied = copied"
| "create_string_from_list_loop n i (item # rest) copied =
     (let copied1 = copied @ [dquote] @ item @ [dquote];
          copied2 = (if int i < int n - 1 then copied1 @ '','' else copied1)
      in create_string_from_list_loop n (i + 1) rest (copied2 @ [newline]))"

definition create_string_from_list :: "string list \<Rightarrow> string" where
  "create_string_from_list items = create_string_from_list_loop (length items) 0 items []"

section \<open>The data model of schemas.py\<close>

datatype Role = User | System | Assistant

datatype RuneType = Normal | Invert

record RuneDefinition =
  rune_name :: string
  description :: string
  type :: RuneType
  alternatives :: "string list option"
  summaries :: "string list option"

record Message =
  role :: Role
  content :: string

datatype FinishReason = Stop | Length | ContentFilter

record Choice =
  message :: Message
  finish_reason :: "FinishReason option"
  index :: int

record Usage =
  prompt_tokens :: int
  completion_tokens :: int
  total_tokens :: int

record Response =
  response_id :: string
  object :: string
  created :: int
  model :: string
  usage :: Usage
  choices :: "Choice list"

text \<open>
  \<open>Prompt\<close> and \<open>Processment\<close> repeat field names of \<open>Message\<close> and \<open>Usage\<close>; the later
  record owns the short name, the earlier ones are written \<open>Message.content\<close> and
  \<open>Usage.total_tokens\<close>.
\<close>

record Prompt =
  role :: Role
  content :: string

record Processment =
  rune_definition :: RuneDefinition
  total_tokens :: int

text \<open>The truth value Python gives an \<open>Optional[list[str]]\<close>: \<open>None\<close> and \<open>[]\<close> are false.\<close>

definition truthy :: "string list option \<Rightarrow> bool" where
  "truthy v = (case v of None \<Rightarrow> False | Some xs \<Rightarrow> xs \<noteq> [])"

section \<open>The world outside the program\<close>

text \<open>
  The program talks to an operator (\<open>inquirer.confirm\<close>), to the completion endpoint
  (\<open>openai.ChatCompletion.create\<close>), to the terminal (\<open>print\<close>, which is \<open>rich.print\<close>) and
  to the clipboard (\<open>pyperclip.copy\<close>). The operator is the sequence of the answers given,
  the endpoint the sequence of the outcomes of its calls; the program is deterministic,
  so every run is the run against some pair of sequences. The \<open>world\<close> records what the
  program has done so far: the questions put to the operator (with their default), the
  requests sent, the texts printed and the strings copied, each in order; a text printed
  is recorded as the program wrote it, markup included. The next answer
  is the one numbered by the questions already put, the next outcome the one numbered by
  the requests already sent. An operator who interrupts the program is not modelled.
\<close>

record request =
  request_model :: string
  messages :: "Prompt list"

record world =
  questions :: "(string \<times> bool) list"
  requests :: "request list"
  printed :: "string list"
  clipboard :: "string list"

text \<open>
  A call of the endpoint raises \<open>openai.error.Timeout\<close>, raises another exception, or
  returns a dictionary; the dictionary is \<open>Some r\<close> when \<open>Response(**raw_response)\<close>
  builds \<open>r\<close> from it, and \<open>None\<close> when pydantic rejects it.
\<close>

datatype endpoint_result =
    Timeout string
  | Failure string
  | Completed "Response option"

type_synonym operator = "nat \<Rightarrow> bool"
type_synonym endpoint = "nat \<Rightarrow> endpoint_result"

text \<open>The exceptions that leave a function, and how a call ends.\<close>

datatype error =
    OpenAIError string
  | ValidationError
  | ValueError
  | TypeError
  | AssertionError
  | MarkupError

datatype 'a result = Returned 'a world | Raised error world

text \<open>
  A text reaches the terminal. (That the terminal itself fails, a closed \<open>stdout\<close>, is not
  modelled.)
\<close>

definition emit :: "string \<Rightarrow> world \<Rightarrow> world" where
  "emit s w = w\<lparr>printed := printed w @ [s]\<rparr>"

definition confirm :: "operator \<Rightarrow> string \<Rightarrow> bool \<Rightarrow> world \<Rightarrow> bool \<times> world" where
  "confirm op msg dflt w =
     (op (length (questions w)), w\<lparr>questions := questions w @ [(msg, dflt)]\<rparr>)"

definition copy :: "string \<Rightarrow> world \<Rightarrow> world" where
  "copy s w = w\<lparr>clipboard := clipboard w @ [s]\<rparr>"

definition create :: "endpoint \<Rightarrow> request \<Rightarrow> world \<Rightarrow> endpoint_result \<times> world" where
  "create ep req w = (ep (length (requests w)), w\<lparr>requests := requests w @ [req]\<rparr>)"

section \<open>rich.print\<close>

text \<open>
  \<open>print\<close> is \<open>rich.print\<close> (\<open>from rich import print\<close>). It reads console markup in every
  argument that is a \<open>str\<close> and raises \<open>MarkupError\<close> when a closing tag closes nothing;
  an argument that is not a \<open>str\<close> is printed as \<open>str\<close> of it, and no markup is read in it.
  The definitions below follow \<open>rich.markup\<close>. Two things are rich's and Python's own and
  are parameters here: \<open>Style.normalize\<close>, which gives a style name its normal form, and
  whether reading the parameters of a meta tag (\<open>RE_HANDLER\<close> and \<open>literal_eval\<close>) raises.
\<close>

record rich =
  style_normalize :: "string \<Rightarrow> string"
  meta_fails :: "string \<Rightarrow> bool"

text \<open>
  \<open>RE_TAGS = ((\\*)\[([a-z#/@][^[]*?)])\<close>: a match at the start of \<open>s\<close> is a run of
  backslashes, an opening bracket, a character of \<open>[a-z#/@]\<close>, then characters other than
  \<open>[\<close> up to the first \<open>]\<close>. It gives the number of backslashes, the text between the
  brackets and what follows the match.
\<close>

definition tag_start :: "char \<Rightarrow> bool" where
  "tag_start c \<longleftrightarrow> List.member ''abcdefghijklmnopqrstuvwxyz#/@'' c"

definition RE_TAGS_match :: "string \<Rightarrow> (nat \<times> string \<times> string) option" where
  "RE_TAGS_match s =
     (case dropWhile (\<lambda>c. c = CHR 0x5C) s of
        a # c # r1 \<Rightarrow>
          if a = CHR ''['' \<and> tag_start c
          then (case dropWhile (\<lambda>x. x \<noteq> CHR '']'') r1 of
                  [] \<Rightarrow> None
                | b # r2 \<Rightarrow>
                    if List.member (takeWhile (\<lambda>x. x \<noteq> CHR '']'') r1) (CHR ''['') then None
                    else Some (length (takeWhile (\<lambda>c. c = CHR 0x5C) s),
                               c # takeWhile (\<lambda>x. x \<noteq> CHR '']'') r1, r2))
          else None
      | _ \<Rightarrow> None)"

lemma RE_TAGS_match_shorter:
  assumes "RE_TAGS_match s = Some (escapes, tag_text, rest)"
  shows "length rest < length s"
proof -
  from assms obtain a d r1 b where
    1: "dropWhile (\<lambda>c. c = CHR 0x5C) s = a # d # r1" and
    2: "dropWhile (\<lambda>x. x \<noteq> CHR '']'') r1 = b # rest"
    unfolding RE_TAGS_match_def by (auto split: list.splits if_splits)
  have "length (dropWhile (\<lambda>x. x \<noteq> CHR '']'') r1) \<le> length r1"
    by (rule length_dropWhile_le)
  with 2 have "length rest < length r1" by simp
  moreover have "length (dropWhile (\<lambda>c. c = CHR 0x5C) s) \<le> length s"
    by (rule length_dropWhile_le)
  with 1 have "length r1 < length s" by simp
  ultimately show ?thesis by simp
qed

text \<open>
  The tags that \<open>_parse\<close> yields, in order: the matches of \<open>RE_TAGS.finditer\<close>, but a match
  with an odd number of backslashes is an escaped tag, which is text.
\<close>

function markup_tags :: "string \<Rightarrow> string list" where
  "markup_tags [] = []"
| "markup_tags (c # cs) =
     (case RE_TAGS_match (c # cs) of
        None \<Rightarrow> markup_tags cs
      | Some (escapes, tag_text, rest) \<Rightarrow>
          if odd escapes then markup_tags rest else tag_text # markup_tags rest)"
  by pat_completeness auto
termination
  by (relation "measure length") (auto dest: RE_TAGS_match_shorter)

text \<open>
  \<open>render\<close> keeps the stack of the open tags, the last opened first here, each a name in
  normal form with its parameters. \<open>pop_style\<close> takes out the open tag nearest the top
  that has the given name.
\<close>

type_synonym tag = "string \<times> string option"

fun pop_style :: "string \<Rightarrow> tag list \<Rightarrow> (tag \<times> tag list) option" where
  "pop_style style_name [] = None"
| "pop_style style_name (t # stack) =
     (if fst t = style_name then Some (t, stack)
      else (case pop_style style_name stack of
              None \<Rightarrow> None
            | Some (u, stack1) \<Rightarrow> Some (u, t # stack1)))"

text \<open>
  What \<open>render\<close> does with one tag: \<open>None\<close> when it raises \<open>MarkupError\<close>, else the new
  stack. A closing tag with a name needs an open tag of that name, a closing tag without
  one needs any open tag; closing a meta tag reads its parameters.
\<close>

definition render_tag :: "rich \<Rightarrow> tag list \<Rightarrow> string \<Rightarrow> tag list option" where
  "render_tag R stack tag_text =
     (case str_partition (CHR ''='') tag_text of
        (name, parameters) \<Rightarrow>
          if prefix ''/'' name
          then (let style_name = strip (drop 1 name)
                in case (if style_name \<noteq> [] then pop_style (style_normalize R style_name) stack
                         else (case stack of [] \<Rightarrow> None | t # stack1 \<Rightarrow> Some (t, stack1))) of
                     None \<Rightarrow> None
                   | Some (open_tag, stack1) \<Rightarrow>
                       if prefix ''@'' (fst open_tag)
                          \<and> (case snd open_tag of
                                None \<Rightarrow> False
                              | Some ps \<Rightarrow> ps \<noteq> [] \<and> meta_fails R ps)
                       then None
                       else Some stack1)
          else Some ((style_normalize R name, parameters) # stack))"

fun render_raises :: "rich \<Rightarrow> tag list \<Rightarrow> string list \<Rightarrow> bool" where
  "render_raises R stack [] = False"
| "render_raises R stack (tag_text # tags) =
     (case render_tag R stack tag_text of
        None \<Rightarrow> True
      | Some stack1 \<Rightarrow> render_raises R stack1 tags)"

text \<open>Whether \<open>render\<close> raises \<open>MarkupError\<close> on a string.\<close>

definition markup_error :: "rich \<Rightarrow> string \<Rightarrow> bool" where
  "markup_error R markup =
     (if \<not> List.member markup (CHR ''['') then False
      else render_raises R [] (markup_tags markup))"

text \<open>
  An argument of \<open>print\<close>: a \<open>str\<close>, or another object, given by \<open>str\<close> of it. \<open>print\<close>
  renders all its arguments before it writes, so a call that raises prints nothing; a
  call that returns prints the texts with a space between them.
\<close>

datatype printable = Str string | Other string

definition text_of :: "printable \<Rightarrow> string" where
  "text_of x = (case x of Str s \<Rightarrow> s | Other s \<Rightarrow> s)"

definition raises_markup :: "rich \<Rightarrow> printable \<Rightarrow> bool" where
  "raises_markup R x = (case x of Str s \<Rightarrow> markup_error R s | Other s \<Rightarrow> False)"

definition print :: "rich \<Rightarrow> printable list \<Rightarrow> world \<Rightarrow> unit result" where
  "print R objects w =
     (if list_ex (raises_markup R) objects then Raised MarkupError w
      else Returned () (emit (join '' '' (map text_of objects)) w))"

text \<open>What follows a call that returns nothing: its exception leaves the function.\<close>

definition and_then :: "unit result \<Rightarrow> (world \<Rightarrow> 'a result option) \<Rightarrow> 'a result option" where
  "and_then r k = (case r of Raised e w \<Rightarrow> Some (Raised e w) | Returned u w \<Rightarrow> k w)"

section \<open>ask_openai\<close>

text \<open>
  The \<open>while True\<close> loop of \<open>ask_openai\<close>: it may run forever, which is the value \<open>None\<close>.
  \<open>print(err)\<close> prints an exception, which is not a \<open>str\<close>: no markup is read in it and
  the call cannot raise.
\<close>

partial_function (option) ask_openai_loop ::
  "endpoint \<Rightarrow> request \<Rightarrow> world \<Rightarrow> Response option result option" where
  "ask_openai_loop ep req w =
     (case create ep req w of
        (Timeout err, w1) \<Rightarrow> ask_openai_loop ep req (emit err w1)
      | (Failure e, w1) \<Rightarrow> Some (Raised (OpenAIError e) w1)
      | (Completed raw_response, w1) \<Rightarrow> Some (Returned raw_response w1))"

declare ask_openai_loop.simps [code]

definition ask_openai :: "endpoint \<Rightarrow> string \<Rightarrow> world \<Rightarrow> Response result option" where
  "ask_openai ep prompt w =
     (let prompt_messages =
            [\<lparr>role = System, content = ''You are a helpful assistant.''\<rparr>,
             \<lparr>role = User, content = prompt\<rparr>]
      in case ask_openai_loop ep
                \<lparr>request_model = ''gpt-3.5-turbo'', messages = prompt_messages\<rparr> w of
           None \<Rightarrow> None
         | Some (Raised e w1) \<Rightarrow> Some (Raised e w1)
         | Some (Returned None w1) \<Rightarrow> Some (Raised ValidationError w1)
         | Some (Returned (Some response) w1) \<Rightarrow> Some (Returned response w1))"

section \<open>The reviews\<close>

text \<open>
  One turn of the loop of \<open>process_summaries\<close> over \<open>enumerate(alternatives)\<close>: \<open>i\<close> is
  the index of \<open>alternative\<close>, \<open>sums\<close> the local list \<open>summaries\<close>, \<open>p\<close> the processment.
\<close>

definition process_summaries_body ::
  "rich \<Rightarrow> operator \<Rightarrow> endpoint \<Rightarrow> nat \<Rightarrow> string \<Rightarrow> string list \<Rightarrow> Processment \<Rightarrow> world
    \<Rightarrow> (string list \<times> Processment) result option" where
  "process_summaries_body R op ep i alternative sums p w =
     (let prompt = PROMPT_TO_SUMMARY alternative
      in and_then
           (print R [Str (str_nat (i + 1) @ '': [cyan]'' @ prompt @ ''[/]''
                          @ [newline, newline])] w)
           (\<lambda>w1. case confirm op ''Ask to OpenAI for this prompt?'' False w1 of
        (confirmed, w2) \<Rightarrow>
          if \<not> confirmed
          then and_then (print R [Str ''[red]Ignored[/]''] w2)
                 (\<lambda>w3. Some (Returned (sums, p) w3))
          else
            (case ask_openai ep prompt w2 of
               None \<Rightarrow> None
             | Some (Raised e w3) \<Rightarrow> Some (Raised e w3)
             | Some (Returned response w3) \<Rightarrow>
                 and_then
                   (print R [Str (''Usage tokens: [bold blue]''
                       @ str_int (Usage.total_tokens (usage response)) @ ''[/]'')] w3)
                   (\<lambda>w4.
                  let p1 = p\<lparr>total_tokens :=
                              total_tokens p + Usage.total_tokens (usage response)\<rparr>
                  in case choices response of
                       [choice] \<Rightarrow>
                         (let cont = Message.content (message choice)
                          in and_then (print R [Str (cont @ [newline])] w4)
                               (\<lambda>w5. case confirm op ''Add?'' True w5 of
                            (will_add, w6) \<Rightarrow>
                              if will_add
                              then and_then
                                     (print R [Str (''[green]Added![/]'' @ [newline])] w6)
                                     (\<lambda>w7. Some (Returned ((sums @ [cont]) @ [cont], p1) w7))
                              else Some (Returned (sums @ [cont], p1) w6)))
                     | _ \<Rightarrow> Some (Raised ValueError w4)))))"

text \<open>The loop itself: an exception or a call that never returns ends it.\<close>

fun process_summaries_loop ::
  "rich \<Rightarrow> operator \<Rightarrow> endpoint \<Rightarrow> nat \<Rightarrow> string list \<Rightarrow> string list \<Rightarrow> Processment \<Rightarrow> world
    \<Rightarrow> (string list \<times> Processment) result option" where
  "process_summaries_loop R op ep i [] sums p w = Some (Returned (sums, p) w)"
| "process_summaries_loop R op ep i (alternative # rest) sums p w =
     (case process_summaries_body R op ep i alternative sums p w of
        None \<Rightarrow> None
      | Some (Raised e w1) \<Rightarrow> Some (Raised e w1)
      | Some (Returned (sums1, p1) w1) \<Rightarrow>
          process_summaries_loop R op ep (i + 1) rest sums1 p1 w1)"

text \<open>The loop that prints the summaries, \<open>i\<close> the index of the next one.\<close>

fun print_summaries :: "rich \<Rightarrow> nat \<Rightarrow> string list \<Rightarrow> world \<Rightarrow> unit result" where
  "print_summaries R i [] w = Returned () w"
| "print_summaries R i (summary # rest) w =
     (case print R [Str (str_nat (i + 1) @ '' - '' @ summary @ [newline])] w of
        Raised e w1 \<Rightarrow> Raised e w1
      | Returned u w1 \<Rightarrow> print_summaries R (i + 1) rest w1)"

definition process_summaries ::
  "rich \<Rightarrow> operator \<Rightarrow> endpoint \<Rightarrow> Processment \<Rightarrow> world \<Rightarrow> Processment result option" where
  "process_summaries R op ep processment w =
     (case alternatives (rune_definition processment) of
        None \<Rightarrow> Some (Raised TypeError w)
      | Some alts \<Rightarrow>
          (case process_summaries_loop R op ep 0 alts [] processment w of
             None \<Rightarrow> None
           | Some (Raised e w1) \<Rightarrow> Some (Raised e w1)
           | Some (Returned (sums, p) w1) \<Rightarrow>
               and_then (print R [Str ''Summaries:''] w1)
                 (\<lambda>w2. and_then (print_summaries R 0 sums w2)
                 (\<lambda>w3. case confirm op ''Copy?'' True w3 of
                  (will_copy, w4) \<Rightarrow>
                    if will_copy
                    then (let copied = create_string_from_list sums
                          in if \<not> length copied > 0 then Some (Raised AssertionError w4)
                             else and_then
                                    (print R [Str (''[green]Copied![/]'' @ [newline])]
                                       (copy copied w4))
                                    (\<lambda>w5. Some (Returned p w5)))
                    else Some (Returned p w4)))))"

text \<open>The loop that prints the items: \<open>print(i + 1, '-', item)\<close>, then \<open>print()\<close>.\<close>

fun print_items :: "rich \<Rightarrow> nat \<Rightarrow> string list \<Rightarrow> world \<Rightarrow> unit result" where
  "print_items R i [] w = Returned () w"
| "print_items R i (item # rest) w =
     (case print R [Other (str_nat (i + 1)), Str ''-'', Str item] w of
        Raised e w1 \<Rightarrow> Raised e w1
      | Returned u w1 \<Rightarrow>
          (case print R [] w1 of
             Raised e w2 \<Rightarrow> Raised e w2
           | Returned u w2 \<Rightarrow> print_items R (i + 1) rest w2))"

text \<open>The prompt that \<open>process_alternatives\<close> builds for a record (its local \<open>prompt\<close>).\<close>

definition process_alternatives_prompt :: "RuneDefinition \<Rightarrow> string" where
  "process_alternatives_prompt rd =
     (let name = get_only_the_rune_name (rune_name rd)
      in PROMPT_TO_GENERATE name
           (if type rd = Invert then '' invertida'' else [])
           (description rd))"

definition process_alternatives ::
  "rich \<Rightarrow> operator \<Rightarrow> endpoint \<Rightarrow> Processment \<Rightarrow> world \<Rightarrow> Processment result option" where
  "process_alternatives R op ep processment w =
     (let prompt = process_alternatives_prompt (rune_definition processment)
      in and_then (print R [Str (''[cyan]'' @ prompt @ ''[/]'' @ [newline, newline])] w)
           (\<lambda>w1. case confirm op ''Ask to OpenAI for this prompt?'' False w1 of
        (confirmed, w2) \<Rightarrow>
          if \<not> confirmed
          then and_then (print R [Str ''[red]Ignored[/]''] w2)
                 (\<lambda>w3. Some (Returned processment w3))
          else
            (case ask_openai ep prompt w2 of
               None \<Rightarrow> None
             | Some (Raised e w3) \<Rightarrow> Some (Raised e w3)
             | Some (Returned response w3) \<Rightarrow>
                 and_then
                   (print R [Str (''Usage tokens: [bold blue]''
                       @ str_int (Usage.total_tokens (usage response)) @ ''[/]'')] w3)
                   (\<lambda>w4.
                  let p1 = processment\<lparr>total_tokens :=
                              total_tokens processment + Usage.total_tokens (usage response)\<rparr>
                  in case choices response of
                       [choice] \<Rightarrow>
                         (let cont = Message.content (message choice);
                              items = parse_response cont
                          in and_then (print R [Str ''Items:''] w4)
                               (\<lambda>w5. and_then (print_items R 0 items w5)
                               (\<lambda>w6. case confirm op ''Copy?'' True w6 of
                            (will_copy, w7) \<Rightarrow>
                              if will_copy
                              then and_then
                                     (print R [Str (''[green]Copied![/]'' @ [newline])]
                                        (copy (create_string_from_list items) w7))
                                     (\<lambda>w8. Some (Returned p1 w8))
                              else Some (Returned p1 w7))))
                     | _ \<Rightarrow> Some (Raised ValueError w4)))))"

section \<open>The driver\<close>

text \<open>
  One turn of the loop of \<open>main\<close> over \<open>enumerate(rune_definitions)\<close>, for a record that is
  not skipped: \<open>i\<close> is the index of the record \<open>rd\<close>. It returns the processment whose tokens
  \<open>main\<close> adds to its total.
\<close>

definition main_body ::
  "rich \<Rightarrow> operator \<Rightarrow> endpoint \<Rightarrow> nat \<Rightarrow> RuneDefinition \<Rightarrow> world
    \<Rightarrow> Processment result option" where
  "main_body R op ep i rd w =
     (let processment = \<lparr>rune_definition = rd, total_tokens = 0\<rparr>
      in and_then (print R [Str (''[bold green]'' @ str_nat i @ ''[/] -:'' @ [newline])] w)
           (\<lambda>w1.
         case (if \<not> truthy (alternatives (rune_definition processment))
               then process_alternatives R op ep processment w1
               else Some (Returned processment w1)) of
           None \<Rightarrow> None
         | Some (Raised e w2) \<Rightarrow> Some (Raised e w2)
         | Some (Returned p2 w2) \<Rightarrow>
             (if truthy (alternatives (rune_definition p2))
                 \<and> \<not> truthy (summaries (rune_definition p2))
              then process_summaries R op ep p2 w2
              else Some (Returned p2 w2))))"

text \<open>
  The loop: a record with both lists is skipped before anything else is done with it;
  \<open>tokens\<close> is the local \<open>total_tokens\<close> of \<open>main\<close>, and the loop returns the tokens it ends
  with.
\<close>

fun main_loop ::
  "rich \<Rightarrow> operator \<Rightarrow> endpoint \<Rightarrow> nat \<Rightarrow> RuneDefinition list \<Rightarrow> int \<Rightarrow> world
    \<Rightarrow> int result option" where
  "main_loop R op ep i [] tokens w = Some (Returned tokens w)"
| "main_loop R op ep i (rd # rest) tokens w =
     (if truthy (alternatives rd) \<and> truthy (summaries rd)
      then main_loop R op ep (i + 1) rest tokens w
      else
        (case main_body R op ep i rd w of
           None \<Rightarrow> None
         | Some (Raised e w3) \<Rightarrow> Some (Raised e w3)
         | Some (Returned p3 w3) \<Rightarrow>
             (let tokens1 = tokens + total_tokens p3
              in case print R [Str (''tokens: [bold blue]'' @ str_int tokens1 @ ''[/]'')] w3 of
                   Raised e w4 \<Rightarrow> Some (Raised e w4)
                 | Returned u w4 \<Rightarrow> main_loop R op ep (i + 1) rest tokens1 w4)))"

text \<open>
  \<open>main\<close>, from the records that \<open>load_json_file\<close> returned. Reading the command line and
  the file, and the check of the API key when the module is loaded, come before and are
  not part of the model.
\<close>

definition main ::
  "rich \<Rightarrow> operator \<Rightarrow> endpoint \<Rightarrow> RuneDefinition list \<Rightarrow> world \<Rightarrow> int result option" where
  "main R op ep rune_definitions w =
     and_then (print R [Str (str_nat (length rune_definitions) @ '' loaded'')] w)
       (\<lambda>w0. case main_loop R op ep 0 rune_definitions 0 w0 of
        None \<Rightarrow> None
      | Some (Raised e w1) \<Rightarrow> Some (Raised e w1)
      | Some (Returned tokens w1) \<Rightarrow>
          and_then (print R [Str (''tokens: [bold blue]'' @ str_int tokens @ ''[/]'')] w1)
            (\<lambda>w2. Some (Returned tokens w2)))"

section \<open>Notions used to state the properties\<close>

text \<open>Whether a call of the endpoint ended in \<open>openai.error.Timeout\<close>.\<close>

definition is_timeout :: "endpoint_result \<Rightarrow> bool" where
  "is_timeout r = (case r of Timeout err \<Rightarrow> True | _ \<Rightarrow> False)"

text \<open>
  How the loop of \<open>ask_openai\<close> ends on a call that did not time out: the exception leaves
  the function, the dictionary is returned. (The first equation is never used on a
  timeout; it only makes the function total.)
\<close>

definition outcome :: "endpoint_result \<Rightarrow> world \<Rightarrow> Response option result" where
  "outcome r w =
     (case r of
        Failure e \<Rightarrow> Raised (OpenAIError e) w
      | Completed raw \<Rightarrow> Returned raw w
      | Timeout err \<Rightarrow> Raised (OpenAIError err) w)"

text \<open>The request that \<open>ask_openai\<close> sends for a prompt.\<close>

definition request_of :: "string \<Rightarrow> request" where
  "request_of prompt =
     \<lparr>request_model = ''gpt-3.5-turbo'',
      messages = [\<lparr>role = System, content = ''You are a helpful assistant.''\<rparr>,
                  \<lparr>role = User, content = prompt\<rparr>]\<rparr>"

text \<open>
  The \<open>total_tokens\<close> that a call of the endpoint reports (a call that delivers no
  completion reports none), and the sum over the calls numbered from \<open>a\<close> up to \<open>b\<close>,
  \<open>b\<close> excluded.
\<close>

definition tokens_of :: "endpoint_result \<Rightarrow> int" where
  "tokens_of r =
     (case r of
        Completed (Some response) \<Rightarrow> Usage.total_tokens (usage response)
      | _ \<Rightarrow> 0)"

definition reported :: "endpoint \<Rightarrow> nat \<Rightarrow> nat \<Rightarrow> int" where
  "reported ep a b = (\<Sum>n = a..<b. tokens_of (ep n))"

text \<open>What a call returned, and the world it left (also when it raised).\<close>

definition returned_value :: "'a result option \<Rightarrow> 'a option" where
  "returned_value r = (case r of Some (Returned v w) \<Rightarrow> Some v | _ \<Rightarrow> None)"

definition final_world :: "'a result option \<Rightarrow> world option" where
  "final_world r =
     (case r of None \<Rightarrow> None | Some (Returned v w) \<Rightarrow> Some w | Some (Raised e w) \<Rightarrow> Some w)"

text \<open>
  The text that the round-trip property of the specification builds from a list: every
  element after its 1-based index and \<open>". "\<close>, the lines joined by \<open>"\n"\<close>.
\<close>

fun numbered_from :: "nat \<Rightarrow> string list \<Rightarrow> string list" where
  "numbered_from n [] = []"
| "numbered_from n (x # xs) = (str_nat n @ ''. '' @ x) # numbered_from (Suc n) xs"

definition numbered_text :: "string list \<Rightarrow> string" where
  "numbered_text xs = join [newline] (numbered_from 1 xs)"

text \<open>Whether a string has a digit with a period right after it.\<close>

fun digit_period :: "string \<Rightarrow> bool" where
  "digit_period (a # b # cs) = ((isdigit a \<and> b = CHR ''.'') \<or> digit_period (b # cs))"
| "digit_period cs = False"

text \<open>
  The line that \<open>process_summaries\<close> prints before it asks about the alternative at index
  \<open>i\<close>: the argument of \<open>print\<close> at line 150 of main.py.
\<close>

definition summary_line :: "nat \<Rightarrow> string \<Rightarrow> string" where
  "summary_line i alternative =
     str_nat (i + 1) @ '': [cyan]'' @ PROMPT_TO_SUMMARY alternative @ ''[/]'' @ [newline, newline]"

section \<open>Concrete runs\<close>

text \<open>A world in which nothing has happened yet.\<close>

definition world0 :: world where
  "world0 = \<lparr>questions = [], requests = [], printed = [], clipboard = []\<rparr>"

text \<open>A completion with one choice of the given text, reporting the given tokens.\<close>

definition completion :: "string \<Rightarrow> int \<Rightarrow> Response" where
  "completion cont n =
     \<lparr>response_id = ''chatcmpl-1'', object = ''chat.completion'', created = 0,
      model = ''gpt-3.5-turbo'',
      usage = \<lparr>prompt_tokens = 0, completion_tokens = n, Usage.total_tokens = n\<rparr>,
      choices = [\<lparr>message = \<lparr>Message.role = Assistant, Message.content = cont\<rparr>,
                  finish_reason = Some Stop, index = 0\<rparr>]\<rparr>"

text \<open>A rune with the given lists of alternatives and summaries.\<close>

definition rune :: "string list option \<Rightarrow> string list option \<Rightarrow> RuneDefinition" where
  "rune alts sums =
     \<lparr>rune_name = ''RUNA FOO'', description = ''d'', type = Normal,
      alternatives = alts, summaries = sums\<rparr>"

text \<open>
  One choice of the two functions of rich that the model leaves open: a style name is
  normalised by stripping it, and no parameter of a meta tag can be evaluated.
\<close>

definition rich0 :: rich where
  "rich0 = \<lparr>style_normalize = strip, meta_fails = (\<lambda>ps. True)\<rparr>"

section \<open>Lemmas\<close>

subsection \<open>The world and print\<close>

lemma requests_emit [simp]: "requests (emit s w) = requests w"
  and questions_emit [simp]: "questions (emit s w) = questions w"
  and clipboard_emit [simp]: "clipboard (emit s w) = clipboard w"
  by (simp_all add: emit_def)

lemma requests_copy [simp]: "requests (copy s w) = requests w"
  and questions_copy [simp]: "questions (copy s w) = questions w"
  by (simp_all add: copy_def)

lemma and_then_print:
  "and_then (print R objs w) k =
     (if list_ex (raises_markup R) objs then Some (Raised MarkupError w)
      else k (emit (join '' '' (map text_of objs)) w))"
  by (simp add: and_then_def print_def)

lemma and_then_Returned:
  "and_then r k = Some (Returned v w') \<Longrightarrow> \<exists>w1. r = Returned () w1 \<and> k w1 = Some (Returned v w')"
  by (cases r) (auto simp: and_then_def)

lemma print_Returned:
  "print R objs w = Returned u w' \<Longrightarrow> w' = emit (join '' '' (map text_of objs)) w"
  by (auto simp: print_def split: if_splits)

lemma print_summaries_Returned:
  "print_summaries R i xs w = Returned u w' \<Longrightarrow>
   requests w' = requests w \<and> questions w' = questions w \<and> clipboard w' = clipboard w"
proof (induction xs arbitrary: i w)
  case Nil
  then show ?case by simp
next
  case (Cons x xs)
  then show ?case
    by (fastforce split: result.splits dest: print_Returned)
qed

lemma print_items_Returned:
  "print_items R i xs w = Returned u w' \<Longrightarrow>
   requests w' = requests w \<and> questions w' = questions w \<and> clipboard w' = clipboard w"
proof (induction xs arbitrary: i w)
  case Nil
  then show ?case by simp
next
  case (Cons x xs)
  from Cons.prems obtain w1 w2 where
    "print R [Other (str_nat (i + 1)), Str ''-'', Str x] w = Returned () w1"
    "print R [] w1 = Returned () w2"
    "print_items R (Suc i) xs w2 = Returned u w'"
    by (auto split: result.splits)
  with Cons.IH [of "Suc i" w2] show ?case
    by (auto dest!: print_Returned)
qed

subsection \<open>create_string_from_list\<close>

lemma create_string_from_list_loop_eq:
  "i + length items = n \<Longrightarrow>
   create_string_from_list_loop n i items copied =
     copied @ concat (map (\<lambda>item. [dquote] @ item @ [dquote] @ '','' @ [newline]) (butlast items))
       @ (if items = [] then [] else [dquote] @ last items @ [dquote] @ [newline])"
proof (induction items arbitrary: i copied)
  case Nil
  then show ?case by simp
next
  case (Cons item rest)
  have step: "Suc i + length rest = n" using Cons.prems by simp
  show ?case
  proof (cases "rest = []")
    case True
    with Cons.prems show ?thesis by simp
  next
    case False
    then have "int i < int n - 1" using Cons.prems by (cases rest) auto
    with False Cons.IH [OF step] show ?thesis by simp
  qed
qed

subsection \<open>ask_openai\<close>

lemma requests_create [simp]: "requests (snd (create ep req w)) = requests w @ [req]"
  and questions_create [simp]: "questions (snd (create ep req w)) = questions w"
  and clipboard_create [simp]: "clipboard (snd (create ep req w)) = clipboard w"
  and fst_create [simp]: "fst (create ep req w) = ep (length (requests w))"
  by (simp_all add: create_def)

lemma ask_openai_loop_returns:
  "(\<forall>j<k. is_timeout (ep (length (requests w) + j))) \<Longrightarrow>
   \<not> is_timeout (ep (length (requests w) + k)) \<Longrightarrow>
   \<exists>w'. ask_openai_loop ep req w = Some (outcome (ep (length (requests w) + k)) w')
     \<and> requests w' = requests w @ replicate (Suc k) req
     \<and> questions w' = questions w \<and> clipboard w' = clipboard w"
proof (induction k arbitrary: w)
  case 0
  then show ?case
    by (subst ask_openai_loop.simps)
      (auto simp: is_timeout_def outcome_def create_def split: endpoint_result.splits)
next
  case (Suc k)
  from Suc.prems(1) have "is_timeout (ep (length (requests w) + 0))" by blast
  then obtain err where err: "ep (length (requests w)) = Timeout err"
    by (auto simp: is_timeout_def split: endpoint_result.splits)
  define w1 where "w1 = emit err (snd (create ep req w))"
  have len: "length (requests w1) = Suc (length (requests w))" by (simp add: w1_def)
  have unfold: "ask_openai_loop ep req w = ask_openai_loop ep req w1"
    by (subst ask_openai_loop.simps) (simp add: create_def err w1_def)
  have a: "\<forall>j<k. is_timeout (ep (length (requests w1) + j))"
  proof (intro allI impI)
    fix j assume "j < k"
    then have "is_timeout (ep (length (requests w) + Suc j))"
      using Suc.prems(1) [rule_format, of "Suc j"] by simp
    then show "is_timeout (ep (length (requests w1) + j))" by (simp add: len)
  qed
  have b: "\<not> is_timeout (ep (length (requests w1) + k))" using Suc.prems(2) by (simp add: len)
  from Suc.IH [OF a b] obtain w' where
    w': "ask_openai_loop ep req w1 = Some (outcome (ep (length (requests w1) + k)) w')"
        "requests w' = requests w1 @ replicate (Suc k) req"
        "questions w' = questions w1" "clipboard w' = clipboard w1"
    by blast
  have "requests w1 = requests w @ [req]" by (simp add: w1_def)
  then have "requests w' = requests w @ replicate (Suc (Suc k)) req"
    using w'(2) by (simp add: replicate_app_Cons_same)
  moreover have "questions w' = questions w" "clipboard w' = clipboard w"
    using w'(3,4) by (simp_all add: w1_def)
  ultimately show ?case using w'(1) unfold by (auto simp: len)
qed

lemma ask_openai_loop_stops:
  assumes "ask_openai_loop ep req w = Some y"
  shows "\<exists>k. (\<forall>j<k. is_timeout (ep (length (requests w) + j)))
      \<and> \<not> is_timeout (ep (length (requests w) + k))"
proof (rule ask_openai_loop.raw_induct
    [where P = "\<lambda>ep req w y. \<exists>k. (\<forall>j<k. is_timeout (ep (length (requests w) + j)))
      \<and> \<not> is_timeout (ep (length (requests w) + k))", OF _ assms], goal_cases)
  case (1 f ep req w y)
  show ?case
  proof (cases "ep (length (requests w))")
    case (Timeout err)
    with 1(2) have "f ep req (emit err (snd (create ep req w))) = Some y"
      by (simp add: create_def)
    from 1(1) [OF this] obtain k where
      k: "\<forall>j<k. is_timeout (ep (Suc (length (requests w)) + j))"
         "\<not> is_timeout (ep (Suc (length (requests w)) + k))"
      by auto
    have "\<forall>j<Suc k. is_timeout (ep (length (requests w) + j))"
    proof (intro allI impI)
      fix j assume j: "j < Suc k"
      show "is_timeout (ep (length (requests w) + j))"
      proof (cases j)
        case 0
        then show ?thesis by (simp add: Timeout is_timeout_def)
      next
        case (Suc j')
        with j k(1) show ?thesis by simp
      qed
    qed
    moreover have "\<not> is_timeout (ep (length (requests w) + Suc k))" using k(2) by simp
    ultimately show ?thesis by blast
  next
    case (Failure e)
    then have "\<not> is_timeout (ep (length (requests w) + 0))" by (simp add: is_timeout_def)
    then show ?thesis by blast
  next
    case (Completed raw)
    then have "\<not> is_timeout (ep (length (requests w) + 0))" by (simp add: is_timeout_def)
    then show ?thesis by blast
  qed
qed

lemma ask_openai_loop_forever:
  "(\<forall>j. is_timeout (ep (length (requests w) + j))) \<Longrightarrow> ask_openai_loop ep req w = None"
proof (rule ccontr)
  assume all: "\<forall>j. is_timeout (ep (length (requests w) + j))"
  assume "ask_openai_loop ep req w \<noteq> None"
  then obtain y where "ask_openai_loop ep req w = Some y" by auto
  from ask_openai_loop_stops [OF this] all show False by blast
qed

lemma reported_same [simp]: "reported ep a a = 0"
  by (simp add: reported_def)

lemma reported_concat:
  "a \<le> b \<Longrightarrow> b \<le> c \<Longrightarrow> reported ep a b + reported ep b c = reported ep a c"
  unfolding reported_def by (rule sum.atLeastLessThan_concat)

lemma reported_timeouts:
  assumes "\<forall>j<k. is_timeout (ep (a + j))"
  shows "reported ep a (a + k) = 0"
  unfolding reported_def
proof (rule sum.neutral, rule ballI)
  fix n assume "n \<in> {a..<a + k}"
  then have "n - a < k" "n = a + (n - a)" by auto
  with assms have "is_timeout (ep n)" by metis
  then show "tokens_of (ep n) = 0"
    by (auto simp: is_timeout_def tokens_of_def split: endpoint_result.splits)
qed

lemma ask_openai_loop_Some:
  assumes "ask_openai_loop ep req w = Some y"
  shows "\<exists>k w'. (\<forall>j<k. is_timeout (ep (length (requests w) + j)))
           \<and> \<not> is_timeout (ep (length (requests w) + k))
           \<and> y = outcome (ep (length (requests w) + k)) w'
           \<and> requests w' = requests w @ replicate (Suc k) req
           \<and> questions w' = questions w \<and> clipboard w' = clipboard w"
proof -
  from ask_openai_loop_stops [OF assms] obtain k where
    k: "\<forall>j<k. is_timeout (ep (length (requests w) + j))"
       "\<not> is_timeout (ep (length (requests w) + k))"
    by blast
  from ask_openai_loop_returns [OF k, of req] assms k show ?thesis
    by (metis option.inject)
qed

lemma ask_openai_Returned:
  assumes "ask_openai ep prompt w = Some (Returned r w')"
  shows "length (requests w) \<le> length (requests w')"
    and "reported ep (length (requests w)) (length (requests w')) = Usage.total_tokens (usage r)"
    and "questions w' = questions w"
    and "clipboard w' = clipboard w"
proof -
  define req where "req = \<lparr>request_model = ''gpt-3.5-turbo'',
     messages = [\<lparr>role = System, content = ''You are a helpful assistant.''\<rparr>,
                 \<lparr>role = User, content = prompt\<rparr>]\<rparr>"
  from assms have loop: "ask_openai_loop ep req w = Some (Returned (Some r) w')"
    by (auto simp: ask_openai_def Let_def req_def split: option.splits result.splits)
  from ask_openai_loop_Some [OF loop] obtain k w'' where
    k: "\<forall>j<k. is_timeout (ep (length (requests w) + j))"
       "Returned (Some r) w' = outcome (ep (length (requests w) + k)) w''"
       "requests w'' = requests w @ replicate (Suc k) req"
       "questions w'' = questions w" "clipboard w'' = clipboard w"
    by blast
  from k(2) have ep: "ep (length (requests w) + k) = Completed (Some r)" and w'': "w'' = w'"
    by (auto simp: outcome_def split: endpoint_result.splits)
  from k(3) w'' have len: "length (requests w') = length (requests w) + Suc k" by simp
  show "length (requests w) \<le> length (requests w')" using len by simp
  show "questions w' = questions w" "clipboard w' = clipboard w" using k(4,5) w'' by simp_all
  have "reported ep (length (requests w)) (length (requests w) + k) = 0"
    by (rule reported_timeouts [OF k(1)])
  moreover have "reported ep (length (requests w) + k) (length (requests w) + Suc k)
      = Usage.total_tokens (usage r)"
    by (simp add: reported_def tokens_of_def ep)
  moreover have "reported ep (length (requests w)) (length (requests w) + k)
      + reported ep (length (requests w) + k) (length (requests w) + Suc k)
      = reported ep (length (requests w)) (length (requests w) + Suc k)"
    by (rule reported_concat) simp_all
  ultimately show "reported ep (length (requests w)) (length (requests w'))
      = Usage.total_tokens (usage r)"
    using len by simp
qed

lemma requests_confirm [simp]: "requests (snd (confirm op msg d w)) = requests w"
  and questions_confirm [simp]: "questions (snd (confirm op msg d w)) = questions w @ [(msg, d)]"
  and clipboard_confirm [simp]: "clipboard (snd (confirm op msg d w)) = clipboard w"
  and fst_confirm [simp]: "fst (confirm op msg d w) = op (length (questions w))"
  by (simp_all add: confirm_def)

subsection \<open>The prompt of process_alternatives\<close>

lemma sublist_across:
  assumes "c \<notin> set w"
  shows "sublist w (xs @ c # ys) \<longleftrightarrow> sublist w xs \<or> sublist w ys"
proof
  assume "sublist w (xs @ c # ys)"
  then consider "sublist w xs" | "sublist w (c # ys)"
    | w1 w2 where "w = w1 @ w2" "suffix w1 xs" "prefix w2 (c # ys)"
    by (auto simp: sublist_append)
  then show "sublist w xs \<or> sublist w ys"
  proof cases
    case 1
    then show ?thesis by simp
  next
    case 2
    then have "prefix w (c # ys) \<or> sublist w ys" by (simp add: sublist_Cons_right)
    then show ?thesis
    proof
      assume "prefix w (c # ys)"
      with assms have "w = []" by (cases w) (auto simp: prefix_Cons)
      then show ?thesis by simp
    qed simp
  next
    case 3
    from 3(3) assms 3(1) have "w2 = []" by (cases w2) (auto simp: prefix_Cons)
    with 3(1,2) have "suffix w xs" by simp
    then show ?thesis by (simp add: suffix_imp_sublist)
  qed
next
  assume "sublist w xs \<or> sublist w ys"
  then show "sublist w (xs @ c # ys)"
  proof
    assume "sublist w xs"
    then show ?thesis by (auto simp: sublist_append)
  next
    assume "sublist w ys"
    then have "sublist w (c # ys)" by (simp add: sublist_Cons_right)
    then show ?thesis by (auto simp: sublist_append)
  qed
qed

lemma not_sublist_head:
  "\<not> sublist ''invertida'' (''Escribe 10 p'' @ [CHR 0xE1] @ ''rrafos que sean variaci'' @ [CHR 0xF3]
     @ ''n del siguiente p'' @ [CHR 0xE1] @ ''rrafo:'' @ [CHR 0x0A, CHR 0x0A] @ ''la runa'')"
  by code_simp

lemma not_sublist_mid: "\<not> sublist ''invertida'' ''Pero no te salgas de la runa''"
  by code_simp

lemma not_sublist_nil: "\<not> sublist ''invertida'' []"
  by simp

lemma prompt_normal_sublist:
  "sublist ''invertida'' (PROMPT_TO_GENERATE name [] text)
     \<longleftrightarrow> sublist ''invertida'' name \<or> sublist ''invertida'' text"
proof -
  let ?H = "''Escribe 10 p'' @ [CHR 0xE1] @ ''rrafos que sean variaci'' @ [CHR 0xF3]
     @ ''n del siguiente p'' @ [CHR 0xE1] @ ''rrafo:'' @ [CHR 0x0A, CHR 0x0A] @ ''la runa''"
  let ?M = "''Pero no te salgas de la runa''"
  have sp: "CHR '' '' \<notin> set ''invertida''" and co: "CHR '':'' \<notin> set ''invertida''"
    and nl: "CHR 0x0A \<notin> set ''invertida''"
    by simp_all
  have "PROMPT_TO_GENERATE name [] text =
      ?H @ CHR '' '' # (name @ CHR '':'' # ([] @ CHR '' '' # (text @ CHR 0x0A # ([] @ CHR 0x0A #
        (?M @ CHR '' '' # (name @ CHR 0x0A # []))))))"
    by (simp add: PROMPT_TO_GENERATE_def newline_def)
  then have "sublist ''invertida'' (PROMPT_TO_GENERATE name [] text)
     \<longleftrightarrow> sublist ''invertida'' name \<or> sublist ''invertida'' text \<or> sublist ''invertida'' name"
    by (simp only: sublist_across [OF sp] sublist_across [OF co] sublist_across [OF nl]
        not_sublist_head not_sublist_mid not_sublist_nil simp_thms)
  then show ?thesis by blast
qed

subsection \<open>parse_response\<close>

lemma REGEX_ITEM_match_no_digit_period:
  "\<not> digit_period x \<Longrightarrow> REGEX_ITEM_match x = None"
proof (induction x rule: digit_period.induct)
  case (1 a b cs)
  then have nb: "\<not> (isdigit a \<and> b = CHR ''.'')" and nd: "\<not> digit_period (b # cs)" by simp_all
  from "1.IH" nd have IH: "REGEX_ITEM_match (b # cs) = None" by simp
  show ?case
  proof (cases "isdigit a")
    case False
    then show ?thesis by (simp add: REGEX_ITEM_match_def)
  next
    case True
    with nb have b: "b \<noteq> CHR ''.''" by simp
    show ?thesis
    proof (cases "isdigit b")
      case False
      with True b show ?thesis by (simp add: REGEX_ITEM_match_def)
    next
      case bd: True
      with True have "REGEX_ITEM_match (a # b # cs) = REGEX_ITEM_match (b # cs)"
        by (simp add: REGEX_ITEM_match_def)
      with IH show ?thesis by simp
    qed
  qed
qed (simp_all add: REGEX_ITEM_match_def)

lemma digit_period_Cons: "\<not> digit_period (a # cs) \<Longrightarrow> \<not> digit_period cs"
  by (cases cs) auto

lemma REGEX_ITEM_sub_no_digit_period:
  "\<not> digit_period x \<Longrightarrow> REGEX_ITEM_sub x = x"
proof (induction x)
  case Nil
  then show ?case by simp
next
  case (Cons a cs)
  from Cons.prems have "REGEX_ITEM_match (a # cs) = None"
    by (rule REGEX_ITEM_match_no_digit_period)
  moreover from Cons have "REGEX_ITEM_sub cs = cs" by (simp add: digit_period_Cons)
  ultimately show ?case by simp
qed

lemma str_nat_digits: "str_nat n \<noteq> [] \<and> (\<forall>c \<in> set (str_nat n). isdigit c)"
proof (induction n rule: str_nat.induct)
  case (1 n)
  have d: "isdigit (''0123456789'' ! k)" if "k < 10" for k
  proof -
    from that have "k \<in> {0, 1, 2, 3, 4, 5, 6, 7, 8, 9}" by auto
    then show ?thesis by (auto simp: isdigit_def)
  qed
  show ?case
  proof (cases "n < 10")
    case True
    then show ?thesis by (subst (1 2) str_nat.simps) (simp add: d)
  next
    case False
    with 1 have "str_nat (n div 10) \<noteq> [] \<and> (\<forall>c \<in> set (str_nat (n div 10)). isdigit c)" by simp
    moreover have "isdigit (''0123456789'' ! (n mod 10))" by (rule d) simp
    ultimately show ?thesis using False by (subst (1 2) str_nat.simps) auto
  qed
qed

lemma REGEX_ITEM_match_marker:
  assumes "ds \<noteq> []" "\<forall>c \<in> set ds. isdigit c"
  shows "REGEX_ITEM_match (ds @ CHR ''.'' # rest) = Some rest"
proof -
  have nd: "\<not> isdigit (CHR ''.'')" by (simp add: isdigit_def)
  from assms(2) nd have "takeWhile isdigit (ds @ CHR ''.'' # rest) = ds"
    by (simp add: takeWhile_append2)
  moreover from assms(2) nd have "dropWhile isdigit (ds @ CHR ''.'' # rest) = CHR ''.'' # rest"
    by (simp add: dropWhile_append2)
  ultimately show ?thesis using assms(1) by (simp add: REGEX_ITEM_match_def)
qed

lemma REGEX_ITEM_sub_marker:
  assumes "ds \<noteq> []" "\<forall>c \<in> set ds. isdigit c"
  shows "REGEX_ITEM_sub (ds @ CHR ''.'' # rest) = REGEX_ITEM_sub rest"
proof -
  from assms(1) obtain d ds' where ds: "ds = d # ds'" by (cases ds) auto
  from REGEX_ITEM_match_marker [OF assms, of rest] show ?thesis by (simp add: ds)
qed

lemma REGEX_ITEM_sub_numbered:
  "\<not> digit_period x \<Longrightarrow> REGEX_ITEM_sub (str_nat n @ ''. '' @ x) = CHR '' '' # x"
proof -
  assume x: "\<not> digit_period x"
  have "REGEX_ITEM_sub (str_nat n @ CHR ''.'' # (CHR '' '' # x)) = REGEX_ITEM_sub (CHR '' '' # x)"
    using str_nat_digits [of n] by (intro REGEX_ITEM_sub_marker) simp_all
  moreover have "REGEX_ITEM_match (CHR '' '' # x) = None"
    by (simp add: REGEX_ITEM_match_def isdigit_def)
  ultimately show ?thesis using REGEX_ITEM_sub_no_digit_period [OF x] by simp
qed

lemma split_loop_append:
  "sep \<notin> set a \<Longrightarrow> split_loop sep cur (a @ rest) = split_loop sep (cur @ a) rest"
  by (induction a arbitrary: cur) auto

lemma split_loop_line:
  "sep \<notin> set a \<Longrightarrow> split_loop sep cur a = [cur @ a]"
  using split_loop_append [of sep a cur "[]"] by simp

lemma join_Cons: "xs \<noteq> [] \<Longrightarrow> join sep (x # xs) = x @ sep @ join sep xs"
  by (cases xs) simp_all

lemma split_join:
  "ls \<noteq> [] \<Longrightarrow> \<forall>l \<in> set ls. sep \<notin> set l \<Longrightarrow> split sep (join [sep] ls) = ls"
proof (induction ls rule: list_nonempty_induct)
  case (single x)
  then show ?case by (simp add: split_def split_loop_line)
next
  case (cons x xs)
  then have "split sep (join [sep] xs) = xs" and "sep \<notin> set x" by simp_all
  then show ?case
    using split_loop_append [of sep x "[]" "sep # join [sep] xs"] cons.hyps
    by (simp add: split_def join_Cons)
qed

lemma strip_not_empty: "strip s \<noteq> [] \<longleftrightarrow> (\<exists>c \<in> set s. \<not> isspace c)"
proof -
  have "strip s = [] \<longleftrightarrow> (\<forall>c \<in> set (dropWhile isspace s). isspace c)"
    by (simp add: strip_def dropWhile_eq_Nil_conv)
  also have "\<dots> \<longleftrightarrow> (\<forall>c \<in> set s. isspace c)"
  proof
    assume a: "\<forall>c \<in> set (dropWhile isspace s). isspace c"
    show "\<forall>c \<in> set s. isspace c"
    proof (cases "dropWhile isspace s")
      case Nil
      then show ?thesis by (simp add: dropWhile_eq_Nil_conv)
    next
      case (Cons c cs)
      then have "\<not> isspace c" using hd_dropWhile [of isspace s] by simp
      with a Cons show ?thesis by simp
    qed
  next
    assume "\<forall>c \<in> set s. isspace c"
    then show "\<forall>c \<in> set (dropWhile isspace s). isspace c"
      using set_dropWhileD by fast
  qed
  finally show ?thesis by blast
qed

lemma strip_space: "strip (CHR '' '' # x) = strip x"
  by (simp add: strip_def isspace_def)

lemma digit_not_space: "isdigit c \<Longrightarrow> \<not> isspace c"
  by (auto simp: isdigit_def isspace_def)

lemma digit_not_newline: "isdigit c \<Longrightarrow> c \<noteq> newline"
  by (auto simp: isdigit_def newline_def)

lemma numbered_line_kept: "strip (str_nat n @ ''. '' @ x) \<noteq> []"
proof -
  from str_nat_digits [of n] obtain d where "d \<in> set (str_nat n)" "isdigit d"
    by (cases "str_nat n") auto
  then show ?thesis unfolding strip_not_empty using digit_not_space by auto
qed

lemma numbered_line_no_newline:
  "newline \<notin> set x \<Longrightarrow> newline \<notin> set (str_nat n @ ''. '' @ x)"
  using str_nat_digits [of n] digit_not_newline by (auto simp: newline_def)

lemma numbered_from_lines:
  "\<forall>x \<in> set xs. newline \<notin> set x \<Longrightarrow> \<forall>l \<in> set (numbered_from n xs). newline \<notin> set l"
proof (induction xs arbitrary: n)
  case Nil
  then show ?case by simp
next
  case (Cons x xs)
  then show ?case using numbered_line_no_newline [of x n] by simp
qed

lemma parse_numbered_from:
  "\<forall>x \<in> set xs. \<not> digit_period x \<Longrightarrow>
   map (\<lambda>x. strip (REGEX_ITEM_sub x)) (filter (\<lambda>x. strip x \<noteq> []) (numbered_from n xs))
     = map strip xs"
proof (induction xs arbitrary: n)
  case Nil
  then show ?case by simp
next
  case (Cons x xs)
  then show ?case
    using numbered_line_kept [of n x] REGEX_ITEM_sub_numbered [of x n]
    by (simp add: strip_space)
qed

text \<open>
  The round trip of the numbered text holds for the lists whose elements have no newline
  and no digit with a period right after it.
\<close>

lemma parse_response_round_trip_restricted:
  assumes "\<forall>x \<in> set xs. newline \<notin> set x" and "\<forall>x \<in> set xs. \<not> digit_period x"
  shows "parse_response (numbered_text xs) = map strip xs"
proof (cases xs)
  case Nil
  then show ?thesis
    by (simp add: parse_response_def numbered_text_def split_def strip_def)
next
  case (Cons y ys)
  then have ne: "numbered_from 1 xs \<noteq> []" by simp
  from split_join [OF ne numbered_from_lines [OF assms(1), of 1]]
  have "split newline (numbered_text xs) = numbered_from 1 xs"
    by (simp add: numbered_text_def)
  with parse_numbered_from [OF assms(2), of 1] show ?thesis
    by (simp add: parse_response_def)
qed

subsection \<open>What a review that returns has done\<close>

lemma process_summaries_body_Returned:
  assumes "process_summaries_body R op ep i alternative sums p w = Some (Returned (sums', p') w')"
  shows "length (requests w) \<le> length (requests w')
    \<and> total_tokens p' = total_tokens p + reported ep (length (requests w)) (length (requests w'))
    \<and> rune_definition p' = rune_definition p"
proof (cases "op (length (questions w))")
  case False
  with assms show ?thesis
    by (auto simp add: process_summaries_body_def Let_def and_then_print confirm_def
        split: if_splits)
next
  case True
  define w2 where "w2 = (emit (join '' '' (map text_of
      [Str (str_nat (i + 1) @ '': [cyan]'' @ PROMPT_TO_SUMMARY alternative @ ''[/]''
         @ [newline, newline])])) w)
      \<lparr>questions := questions w @ [(''Ask to OpenAI for this prompt?'', False)]\<rparr>"
  have r2: "requests w2 = requests w" by (simp add: w2_def)
  from assms True obtain response w3 where
    ask: "ask_openai ep (PROMPT_TO_SUMMARY alternative) w2 = Some (Returned response w3)"
    by (auto simp add: process_summaries_body_def Let_def and_then_print confirm_def w2_def
        split: if_splits option.splits result.splits)
  from assms True ask obtain choice where ch: "choices response = [choice]"
    by (auto simp add: process_summaries_body_def Let_def and_then_print confirm_def w2_def
        split: if_splits list.splits)
  from assms True ask ch have
    p': "p' = p\<lparr>total_tokens := total_tokens p + Usage.total_tokens (usage response)\<rparr>"
    and w': "requests w' = requests w3"
    by (auto simp add: process_summaries_body_def Let_def and_then_print confirm_def w2_def
        split: if_splits)
  from ask_openai_Returned(1,2) [OF ask] r2 p' w' show ?thesis by simp
qed

lemma process_summaries_loop_Returned:
  "process_summaries_loop R op ep i alts sums p w = Some (Returned (sums', p') w') \<Longrightarrow>
   length (requests w) \<le> length (requests w')
    \<and> total_tokens p' = total_tokens p + reported ep (length (requests w)) (length (requests w'))
    \<and> rune_definition p' = rune_definition p"
proof (induction alts arbitrary: i sums p w)
  case Nil
  then show ?case by simp
next
  case (Cons a rest)
  from Cons.prems obtain s1 p1 w1 where
    b: "process_summaries_body R op ep i a sums p w = Some (Returned (s1, p1) w1)" and
    l: "process_summaries_loop R op ep (Suc i) rest s1 p1 w1 = Some (Returned (sums', p') w')"
    by (auto split: option.splits result.splits prod.splits)
  note B = process_summaries_body_Returned [OF b] and L = Cons.IH [OF l]
  have "reported ep (length (requests w)) (length (requests w1))
      + reported ep (length (requests w1)) (length (requests w'))
      = reported ep (length (requests w)) (length (requests w'))"
    using B L by (intro reported_concat) simp_all
  with B L show ?case by simp
qed

lemma process_summaries_Returned:
  assumes "process_summaries R op ep p w = Some (Returned p' w')"
  shows "length (requests w) \<le> length (requests w')
    \<and> total_tokens p' = total_tokens p + reported ep (length (requests w)) (length (requests w'))
    \<and> rune_definition p' = rune_definition p"
proof -
  from assms obtain alts sums p1 w1 where
    l: "process_summaries_loop R op ep 0 alts [] p w = Some (Returned (sums, p1) w1)" and
    k: "and_then (print R [Str ''Summaries:''] w1)
          (\<lambda>w2. and_then (print_summaries R 0 sums w2)
          (\<lambda>w3. case confirm op ''Copy?'' True w3 of
             (will_copy, w4) \<Rightarrow>
               if will_copy
               then (let copied = create_string_from_list sums
                     in if \<not> length copied > 0 then Some (Raised AssertionError w4)
                        else and_then
                               (print R [Str (''[green]Copied![/]'' @ [newline])]
                                  (copy copied w4))
                               (\<lambda>w5. Some (Returned p1 w5)))
               else Some (Returned p1 w4))) = Some (Returned p' w')"
    by (auto simp add: process_summaries_def split: option.splits result.splits prod.splits)
  from and_then_Returned [OF k] obtain w2 where
    p2: "print R [Str ''Summaries:''] w1 = Returned () w2" and
    k2: "and_then (print_summaries R 0 sums w2)
          (\<lambda>w3. case confirm op ''Copy?'' True w3 of
             (will_copy, w4) \<Rightarrow>
               if will_copy
               then (let copied = create_string_from_list sums
                     in if \<not> length copied > 0 then Some (Raised AssertionError w4)
                        else and_then
                               (print R [Str (''[green]Copied![/]'' @ [newline])]
                                  (copy copied w4))
                               (\<lambda>w5. Some (Returned p1 w5)))
               else Some (Returned p1 w4)) = Some (Returned p' w')"
    by blast
  from and_then_Returned [OF k2] obtain w3 where
    p3: "print_summaries R 0 sums w2 = Returned () w3" and
    k3: "(case confirm op ''Copy?'' True w3 of
             (will_copy, w4) \<Rightarrow>
               if will_copy
               then (let copied = create_string_from_list sums
                     in if \<not> length copied > 0 then Some (Raised AssertionError w4)
                        else and_then
                               (print R [Str (''[green]Copied![/]'' @ [newline])]
                                  (copy copied w4))
                               (\<lambda>w5. Some (Returned p1 w5)))
               else Some (Returned p1 w4)) = Some (Returned p' w')"
    by blast
  from k3 have "p' = p1" and "requests w' = requests w3"
    by (auto simp add: Let_def and_then_print confirm_def split: if_splits)
  moreover from print_summaries_Returned [OF p3] print_Returned [OF p2]
  have "requests w3 = requests w1" by simp
  ultimately show ?thesis using process_summaries_loop_Returned [OF l] by simp
qed

lemma and_then_print_items_Returned:
  assumes "and_then (print_items R i xs w) k = Some (Returned v w')"
  shows "\<exists>w1. requests w1 = requests w \<and> questions w1 = questions w
           \<and> clipboard w1 = clipboard w \<and> k w1 = Some (Returned v w')"
proof -
  from and_then_Returned [OF assms] obtain w1 where
    "print_items R i xs w = Returned () w1" "k w1 = Some (Returned v w')"
    by blast
  with print_items_Returned [of R i xs w "()" w1] show ?thesis by blast
qed

lemma process_alternatives_Returned:
  assumes "process_alternatives R op ep p w = Some (Returned p' w')"
  shows "length (requests w) \<le> length (requests w')
    \<and> total_tokens p' = total_tokens p + reported ep (length (requests w)) (length (requests w'))
    \<and> rune_definition p' = rune_definition p"
proof (cases "op (length (questions w))")
  case False
  with assms show ?thesis
    by (auto simp add: process_alternatives_def Let_def and_then_print confirm_def
        split: if_splits)
next
  case True
  define prompt where "prompt = process_alternatives_prompt (rune_definition p)"
  define w2 where "w2 = (emit (join '' '' (map text_of
      [Str (''[cyan]'' @ prompt @ ''[/]'' @ [newline, newline])])) w)
      \<lparr>questions := questions w @ [(''Ask to OpenAI for this prompt?'', False)]\<rparr>"
  have r2: "requests w2 = requests w" by (simp add: w2_def)
  from assms True obtain response w3 where
    ask: "ask_openai ep prompt w2 = Some (Returned response w3)"
    by (auto simp add: process_alternatives_def Let_def and_then_print confirm_def w2_def
        prompt_def split: if_splits option.splits result.splits)
  from assms True ask obtain choice where ch: "choices response = [choice]"
    by (auto simp add: process_alternatives_def Let_def and_then_print confirm_def w2_def
        prompt_def split: if_splits list.splits)
  from assms True ask ch have
    "p' = p\<lparr>total_tokens := total_tokens p + Usage.total_tokens (usage response)\<rparr>"
    and "requests w' = requests w3"
    by (auto simp add: process_alternatives_def Let_def and_then_print confirm_def w2_def
        prompt_def split: if_splits dest!: and_then_print_items_Returned)
  with ask_openai_Returned(1,2) [OF ask] r2 show ?thesis by simp
qed

subsection \<open>The prints of the texts of the program\<close>

text \<open>
  A text without an opening bracket, and the texts that the program builds from its own
  markup and a number, are printed whatever \<open>Style.normalize\<close> does: \<open>print\<close> does not raise
  on them.
\<close>

lemma RE_TAGS_match_plain:
  "c \<noteq> CHR ''['' \<Longrightarrow> c \<noteq> CHR 0x5C \<Longrightarrow> RE_TAGS_match (c # cs) = None"
  by (simp add: RE_TAGS_match_def split: list.splits)

lemma markup_tags_plain:
  "\<forall>c \<in> set a. c \<noteq> CHR ''['' \<and> c \<noteq> CHR 0x5C \<Longrightarrow> markup_tags (a @ rest) = markup_tags rest"
  by (induction a) (simp_all add: RE_TAGS_match_plain)

lemma markup_error_no_bracket: "CHR ''['' \<notin> set s \<Longrightarrow> \<not> markup_error R s"
  by (simp add: markup_error_def)

lemma isdigit_plain: "isdigit c \<Longrightarrow> c \<noteq> CHR ''['' \<and> c \<noteq> CHR 0x5C"
  by (auto simp: isdigit_def)

lemma str_nat_plain: "\<forall>c \<in> set (str_nat n). c \<noteq> CHR ''['' \<and> c \<noteq> CHR 0x5C"
  using str_nat_digits [of n] isdigit_plain by blast

lemma str_int_plain: "\<forall>c \<in> set (str_int t). c \<noteq> CHR ''['' \<and> c \<noteq> CHR 0x5C"
  using str_nat_plain by (simp add: str_int_def)

lemmas markup_defs = RE_TAGS_match_def tag_start_def render_tag_def str_partition_def
  Let_def strip_def newline_def

lemma markup_tags_close: "markup_tags (CHR ''['' # CHR ''/'' # CHR '']'' # rest) = ''/'' # markup_tags rest"
  by (simp add: markup_defs)

lemma print_loaded:
  "print R [Str (str_nat n @ '' loaded'')] w = Returned () (emit (str_nat n @ '' loaded'') w)"
proof -
  have "CHR ''['' \<notin> set (str_nat n @ '' loaded'')" using str_nat_plain [of n] by auto
  then show ?thesis by (simp add: print_def raises_markup_def markup_error_no_bracket text_of_def)
qed

lemma print_index:
  "print R [Str (''[bold green]'' @ str_nat i @ ''[/] -:'' @ [newline])] w
     = Returned () (emit (''[bold green]'' @ str_nat i @ ''[/] -:'' @ [newline]) w)"
proof -
  have "markup_tags (''[bold green]'' @ str_nat i @ ''[/] -:'' @ [newline])
      = ''bold green'' # markup_tags (str_nat i @ ''[/] -:'' @ [newline])"
    by (simp add: markup_defs)
  also have "markup_tags (str_nat i @ ''[/] -:'' @ [newline]) = markup_tags (''[/] -:'' @ [newline])"
    by (rule markup_tags_plain [OF str_nat_plain])
  also have "\<dots> = [''/'']" by (simp add: markup_defs)
  finally have "\<not> markup_error R (''[bold green]'' @ str_nat i @ ''[/] -:'' @ [newline])"
    by (simp add: markup_error_def markup_defs)
  then show ?thesis by (simp add: print_def raises_markup_def text_of_def)
qed

lemma print_tokens:
  "print R [Str (''tokens: [bold blue]'' @ str_int t @ ''[/]'')] w
     = Returned () (emit (''tokens: [bold blue]'' @ str_int t @ ''[/]'') w)"
proof -
  have "markup_tags (''tokens: [bold blue]'' @ str_int t @ ''[/]'')
      = ''bold blue'' # markup_tags (str_int t @ ''[/]'')"
    by (simp add: markup_defs)
  also have "markup_tags (str_int t @ ''[/]'') = markup_tags ''[/]''"
    by (rule markup_tags_plain [OF str_int_plain])
  also have "\<dots> = [''/'']" by (simp add: markup_defs)
  finally have "\<not> markup_error R (''tokens: [bold blue]'' @ str_int t @ ''[/]'')"
    by (simp add: markup_error_def markup_defs)
  then show ?thesis by (simp add: print_def raises_markup_def text_of_def)
qed

lemma print_ignored:
  "print R [Str ''[red]Ignored[/]''] w = Returned () (emit ''[red]Ignored[/]'' w)"
  by (simp add: print_def raises_markup_def text_of_def markup_error_def markup_defs)

lemma print_summaries_title:
  "print R [Str ''Summaries:''] w = Returned () (emit ''Summaries:'' w)"
  by (simp add: print_def raises_markup_def text_of_def markup_error_def)

subsection \<open>The driver\<close>

lemma main_body_not_alternatives:
  assumes "\<not> truthy (alternatives rd)"
  shows "main_body R op ep i rd w =
     process_alternatives R op ep \<lparr>rune_definition = rd, total_tokens = 0\<rparr>
       (emit (''[bold green]'' @ str_nat i @ ''[/] -:'' @ [newline]) w)"
proof (cases "process_alternatives R op ep \<lparr>rune_definition = rd, total_tokens = 0\<rparr>
       (emit (''[bold green]'' @ str_nat i @ ''[/] -:'' @ [newline]) w)")
  case None
  with assms show ?thesis unfolding main_body_def print_index and_then_def by simp
next
  case (Some r)
  show ?thesis
  proof (cases r)
    case (Raised e w2)
    with Some assms show ?thesis unfolding main_body_def print_index and_then_def by simp
  next
    case (Returned p2 w2)
    with Some have "rune_definition p2 = rd"
      using process_alternatives_Returned [of R op ep _ _ p2 w2] by fastforce
    with Some Returned assms show ?thesis unfolding main_body_def print_index and_then_def by simp
  qed
qed

lemma main_body_Returned:
  assumes "main_body R op ep i rd w = Some (Returned p' w')"
  shows "length (requests w) \<le> length (requests w')
    \<and> total_tokens p' = reported ep (length (requests w)) (length (requests w'))"
proof (cases "truthy (alternatives rd)")
  case False
  from assms [unfolded main_body_not_alternatives [OF False]]
  show ?thesis using process_alternatives_Returned by fastforce
next
  case True
  show ?thesis
  proof (cases "truthy (summaries rd)")
    case True
    with \<open>truthy (alternatives rd)\<close> assms show ?thesis
      unfolding main_body_def print_index and_then_def by auto
  next
    case False
    with \<open>truthy (alternatives rd)\<close> assms have
      "process_summaries R op ep \<lparr>rune_definition = rd, total_tokens = 0\<rparr>
         (emit (''[bold green]'' @ str_nat i @ ''[/] -:'' @ [newline]) w) = Some (Returned p' w')"
      unfolding main_body_def print_index and_then_def by simp
    from process_summaries_Returned [OF this] show ?thesis by simp
  qed
qed

lemma main_loop_Returned:
  "main_loop R op ep i rds tokens w = Some (Returned tokens' w') \<Longrightarrow>
   length (requests w) \<le> length (requests w')
    \<and> tokens' = tokens + reported ep (length (requests w)) (length (requests w'))"
proof (induction rds arbitrary: i tokens w)
  case Nil
  then show ?case by simp
next
  case (Cons rd rest)
  show ?case
  proof (cases "truthy (alternatives rd) \<and> truthy (summaries rd)")
    case True
    with Cons.prems have "main_loop R op ep (Suc i) rest tokens w = Some (Returned tokens' w')"
      by simp
    from Cons.IH [OF this] show ?thesis .
  next
    case False
    have step: "main_loop R op ep i (rd # rest) tokens w =
        (case main_body R op ep i rd w of
           None \<Rightarrow> None
         | Some (Raised e w3) \<Rightarrow> Some (Raised e w3)
         | Some (Returned p3 w3) \<Rightarrow>
             main_loop R op ep (Suc i) rest (tokens + total_tokens p3)
               (emit (''tokens: [bold blue]'' @ str_int (tokens + total_tokens p3) @ ''[/]'') w3))"
      using False unfolding main_loop.simps Let_def print_tokens
      by (auto split: option.splits result.splits)
    with Cons.prems obtain p3 w3 where
      b: "main_body R op ep i rd w = Some (Returned p3 w3)" and
      l: "main_loop R op ep (Suc i) rest (tokens + total_tokens p3)
            (emit (''tokens: [bold blue]'' @ str_int (tokens + total_tokens p3) @ ''[/]'') w3)
          = Some (Returned tokens' w')"
      by (auto split: option.splits result.splits)
    note B = main_body_Returned [OF b] and L = Cons.IH [OF l]
    have "reported ep (length (requests w)) (length (requests w3))
        + reported ep (length (requests w3)) (length (requests w'))
        = reported ep (length (requests w)) (length (requests w'))"
      using B L by (intro reported_concat) simp_all
    with B L show ?thesis by simp
  qed
qed

lemma main_Returned:
  assumes "main R op ep rds w = Some (Returned tokens w')"
  shows "tokens = reported ep (length (requests w)) (length (requests w'))"
proof -
  from assms obtain w1 where
    l: "main_loop R op ep 0 rds 0 (emit (str_nat (length rds) @ '' loaded'') w)
          = Some (Returned tokens w1)" and w': "requests w' = requests w1"
    unfolding main_def print_loaded print_tokens and_then_def
    by (auto split: option.splits result.splits)
  from main_loop_Returned [OF l] w' show ?thesis by simp
qed

lemma main_loop_all_complete:
  "\<forall>rd \<in> set rds. truthy (alternatives rd) \<and> truthy (summaries rd) \<Longrightarrow>
   main_loop R op ep i rds tokens w = Some (Returned tokens w)"
  by (induction rds arbitrary: i) simp_all

subsection \<open>A review in which every alternative is declined\<close>

lemma process_summaries_body_declined:
  "\<not> markup_error R (summary_line i a) \<Longrightarrow> \<not> op (length (questions w)) \<Longrightarrow>
   \<exists>w'. process_summaries_body R op ep i a sums p w = Some (Returned (sums, p) w')
     \<and> requests w' = requests w \<and> clipboard w' = clipboard w
     \<and> length (questions w') = Suc (length (questions w))"
  unfolding process_summaries_body_def Let_def print_ignored
  by (simp add: and_then_def print_def raises_markup_def summary_line_def confirm_def)

lemma process_summaries_loop_declined:
  "\<forall>j<length alts. \<not> markup_error R (summary_line (i + j) (alts ! j)) \<Longrightarrow>
   \<forall>j<length alts. \<not> op (length (questions w) + j) \<Longrightarrow>
   \<exists>w'. process_summaries_loop R op ep i alts sums p w = Some (Returned (sums, p) w')
     \<and> requests w' = requests w \<and> clipboard w' = clipboard w
     \<and> length (questions w') = length (questions w) + length alts"
proof (induction alts arbitrary: i w)
  case Nil
  then show ?case by simp
next
  case (Cons a rest)
  from Cons.prems(1) have m: "\<not> markup_error R (summary_line i a)" by fastforce
  from Cons.prems(2) have "\<not> op (length (questions w))" by fastforce
  from process_summaries_body_declined [of R i a op w ep sums p, OF m this] obtain w1 where
    w1: "process_summaries_body R op ep i a sums p w = Some (Returned (sums, p) w1)"
        "requests w1 = requests w" "clipboard w1 = clipboard w"
        "length (questions w1) = Suc (length (questions w))"
    by blast
  have a1: "\<forall>j<length rest. \<not> markup_error R (summary_line (Suc i + j) (rest ! j))"
  proof (intro allI impI)
    fix j assume "j < length rest"
    then show "\<not> markup_error R (summary_line (Suc i + j) (rest ! j))"
      using Cons.prems(1) [rule_format, of "Suc j"] by simp
  qed
  have a2: "\<forall>j<length rest. \<not> op (length (questions w1) + j)"
  proof (intro allI impI)
    fix j assume "j < length rest"
    then have "\<not> op (length (questions w) + Suc j)"
      using Cons.prems(2) [rule_format, of "Suc j"] by simp
    then show "\<not> op (length (questions w1) + j)" by (simp add: w1(4))
  qed
  from Cons.IH [of "Suc i" w1, OF a1 a2] obtain w' where
    "process_summaries_loop R op ep (Suc i) rest sums p w1 = Some (Returned (sums, p) w')"
    "requests w' = requests w1" "clipboard w' = clipboard w1"
    "length (questions w') = length (questions w1) + length rest"
    by blast
  with w1 show ?case by simp
qed

lemma process_summaries_all_declined:
  assumes "alternatives (rune_definition p) = Some alts"
    and "\<forall>j<length alts. \<not> markup_error R (summary_line j (alts ! j))"
    and "\<forall>j<length alts. \<not> op (length (questions w) + j)"
    and "op (length (questions w) + length alts)"
  shows "\<exists>w'. process_summaries R op ep p w = Some (Raised AssertionError w')
     \<and> requests w' = requests w \<and> clipboard w' = clipboard w"
proof -
  from assms(2) have "\<forall>j<length alts. \<not> markup_error R (summary_line (0 + j) (alts ! j))"
    by simp
  from process_summaries_loop_declined [of alts R 0 op w ep "[]" p, OF this assms(3)]
  obtain w1 where
    w1: "process_summaries_loop R op ep 0 alts [] p w = Some (Returned ([], p) w1)"
        "requests w1 = requests w" "clipboard w1 = clipboard w"
        "length (questions w1) = length (questions w) + length alts"
    by blast
  with assms(1,4) show ?thesis
    unfolding process_summaries_def Let_def print_summaries_title
    by (simp add: and_then_def confirm_def create_string_from_list_def)
qed

subsection \<open>Evaluation of concrete runs\<close>

lemmas run_defs = main_def main_body_def process_summaries_def process_summaries_body_def
  process_alternatives_def ask_openai_def ask_openai_loop.simps create_def confirm_def
  truthy_def rune_def completion_def world0_def Let_def and_then_def print_def
  raises_markup_def text_of_def markup_error_def RE_TAGS_match_def tag_start_def
  render_tag_def str_partition_def strip_def newline_def str_nat.simps str_int_def
  rich0_def process_alternatives_prompt_def PROMPT_TO_GENERATE_def PROMPT_TO_SUMMARY_def
  get_only_the_rune_name_def isspace_def

subsection \<open>Which prompts of process_summaries are printed\<close>

text \<open>
  The line of an alternative without an opening bracket and without a backslash is
  printed. The line of \<open>ver [/usr/bin]\<close> is not: \<open>[/usr/bin]\<close> is a closing tag that closes
  nothing, so \<open>process_summaries\<close> ends in \<open>MarkupError\<close> at its first \<open>print\<close>, before any
  question is put to the operator.
\<close>

lemma markup_tags_tag:
  assumes "tag_start c" "CHR ''['' \<notin> set body" "CHR '']'' \<notin> set body"
  shows "markup_tags (CHR ''['' # c # body @ CHR '']'' # rest) = (c # body) # markup_tags rest"
proof -
  from assms(3) have "dropWhile (\<lambda>x. x \<noteq> CHR '']'') (body @ CHR '']'' # rest) = CHR '']'' # rest"
    by (induction body) auto
  moreover from assms(3) have "takeWhile (\<lambda>x. x \<noteq> CHR '']'') (body @ CHR '']'' # rest) = body"
    by (induction body) auto
  ultimately have "RE_TAGS_match (CHR ''['' # c # body @ CHR '']'' # rest) = Some (0, c # body, rest)"
    using assms(1,2) by (simp add: RE_TAGS_match_def)
  then show ?thesis by simp
qed

lemma summary_line_plain:
  assumes "\<forall>c \<in> set a. c \<noteq> CHR ''['' \<and> c \<noteq> CHR 0x5C"
  shows "\<not> markup_error R (summary_line i a)"
proof -
  let ?p = "''Resume bien resumido este p'' @ [CHR 0xE1] @ ''rrafo sin agregar nada m''
     @ [CHR 0xE1] @ ''s: ''"
  let ?end = "''[/]'' @ [newline, newline]"
  have eq: "summary_line i a
      = (str_nat (i + 1) @ '': '') @ CHR ''['' # CHR ''c'' # ''yan'' @ CHR '']'' # ((?p @ a) @ ?end)"
    by (simp add: summary_line_def PROMPT_TO_SUMMARY_def)
  have p1: "\<forall>c \<in> set (str_nat (i + 1) @ '': ''). c \<noteq> CHR ''['' \<and> c \<noteq> CHR 0x5C"
    using str_nat_plain [of "i + 1"] by auto
  have p2: "\<forall>c \<in> set (?p @ a). c \<noteq> CHR ''['' \<and> c \<noteq> CHR 0x5C"
    using assms by auto
  have "markup_tags (summary_line i a)
      = markup_tags (CHR ''['' # CHR ''c'' # ''yan'' @ CHR '']'' # ((?p @ a) @ ?end))"
    unfolding eq by (rule markup_tags_plain [OF p1])
  also have "\<dots> = ''cyan'' # markup_tags ((?p @ a) @ ?end)"
    by (rule markup_tags_tag) (simp_all add: tag_start_def)
  also have "markup_tags ((?p @ a) @ ?end) = markup_tags ?end"
    by (rule markup_tags_plain [OF p2])
  also have "\<dots> = [''/'']" by (simp add: markup_defs)
  finally show ?thesis by (simp add: markup_error_def markup_defs)
qed

lemma process_summaries_markup_error:
  "process_summaries rich0 op ep
     \<lparr>rune_definition = rune (Some [''ver [/usr/bin]'']) None, total_tokens = 0\<rparr> world0
   = Some (Raised MarkupError world0)"
  by (simp add: run_defs)

section \<open>The properties\<close>

text \<open>
  C1. One alternative, asked about, with the completion \<open>s\<close>. When the operator accepts
  it (\<open>Add?\<close> answered yes) the list of summaries is \<open>[s, s]\<close> and \<open>"s",\n"s"\n\<close> is copied;
  when the operator rejects it the list is \<open>[s]\<close> and \<open>"s"\n\<close> is copied. The decision
  decides how often the completion is in the list.
\<close>

theorem process_summaries_accepted_twice:
  "map_option fst (returned_value (process_summaries_loop R (\<lambda>n. True)
       (\<lambda>n. Completed (Some (completion ''s'' 5))) 0 [''a''] []
       \<lparr>rune_definition = rune (Some [''a'']) None, total_tokens = 0\<rparr> world0))
     = Some [''s'', ''s'']
   \<and> map_option fst (returned_value (process_summaries_loop R (\<lambda>n. n \<noteq> 1)
       (\<lambda>n. Completed (Some (completion ''s'' 5))) 0 [''a''] []
       \<lparr>rune_definition = rune (Some [''a'']) None, total_tokens = 0\<rparr> world0))
     = Some [''s'']
   \<and> map_option clipboard (final_world (process_summaries R (\<lambda>n. True)
       (\<lambda>n. Completed (Some (completion ''s'' 5)))
       \<lparr>rune_definition = rune (Some [''a'']) None, total_tokens = 0\<rparr> world0))
     = Some [[CHR 0x22, CHR ''s'', CHR 0x22, CHR '','', CHR 0x0A, CHR 0x22, CHR ''s'', CHR 0x22, CHR 0x0A]]
   \<and> map_option clipboard (final_world (process_summaries R (\<lambda>n. n \<noteq> 1)
       (\<lambda>n. Completed (Some (completion ''s'' 5)))
       \<lparr>rune_definition = rune (Some [''a'']) None, total_tokens = 0\<rparr> world0))
     = Some [[CHR 0x22, CHR ''s'', CHR 0x22, CHR 0x0A]]"
  by (simp add: run_defs returned_value_def final_world_def create_string_from_list_def
      dquote_def emit_def copy_def)

text \<open>
  C2. The list \<open>["uno", "version 2.0"]\<close> does not come back: its numbered text is
  \<open>1. uno\n2. version 2.0\<close>, and \<open>parse_response\<close> of it is \<open>["uno", "version 0"]\<close>, since the
  \<open>2.\<close> inside the second element is removed with the markers.
\<close>

theorem parse_response_round_trip_fails:
  "numbered_text [''uno'', ''version 2.0''] = ''1. uno'' @ [CHR 0x0A] @ ''2. version 2.0''
   \<and> parse_response (numbered_text [''uno'', ''version 2.0'']) = [''uno'', ''version 0'']
   \<and> map strip [''uno'', ''version 2.0''] = [''uno'', ''version 2.0'']"
  by (simp add: numbered_text_def str_nat.simps parse_response_def split_def newline_def
      strip_def isspace_def isdigit_def REGEX_ITEM_match_def)

text \<open>
  C3. A digit-period sequence inside a line is removed too: the line
  \<open>1. version 2.0 final\<close> becomes \<open>version 0 final\<close>, and \<open>see 3.5 and 4.\<close> with no marker
  at its start becomes \<open>see 5 and\<close>.
\<close>

theorem parse_response_strips_inner_markers:
  "parse_response ''1. version 2.0 final'' = [''version 0 final'']
   \<and> parse_response ''see 3.5 and 4.'' = [''see 5 and'']"
  by (simp add: parse_response_def split_def newline_def
      strip_def isspace_def isdigit_def REGEX_ITEM_match_def)

text \<open>
  C4. A record whose \<open>alternatives\<close> and \<open>summaries\<close> are both present and non-empty is
  skipped by the loop of \<open>main\<close>: the loop goes on with the next record in the same world
  and with the same total, so nothing is printed, asked, requested or copied for it. A run
  over such records only returns with total 0, having sent no request and asked nothing.
\<close>

theorem main_skips_complete_record:
  "(truthy (alternatives rd) \<and> truthy (summaries rd) \<longrightarrow>
      main_loop R op ep i (rd # rest) tokens w = main_loop R op ep (Suc i) rest tokens w)
   \<and> ((\<forall>rd \<in> set rds. truthy (alternatives rd) \<and> truthy (summaries rd)) \<longrightarrow>
      (\<exists>w'. main R op ep rds w = Some (Returned 0 w') \<and> requests w' = requests w
         \<and> questions w' = questions w \<and> clipboard w' = clipboard w))"
  unfolding main_def print_loaded print_tokens and_then_def
  by (simp add: main_loop_all_complete)

theorem main_skips_complete_record_witness:
  "truthy (alternatives (rune (Some [''a'']) (Some [''s''])))
   \<and> truthy (summaries (rune (Some [''a'']) (Some [''s''])))
   \<and> main_loop rich0 (\<lambda>n. True) (\<lambda>n. Failure ''down'') 0
        [rune (Some [''a'']) (Some [''s''])] 0 world0 = Some (Returned 0 world0)
   \<and> (\<exists>w'. main rich0 (\<lambda>n. True) (\<lambda>n. Failure ''down'')
        [rune (Some [''a'']) (Some [''s''])] world0 = Some (Returned 0 w')
        \<and> requests w' = [] \<and> questions w' = [] \<and> clipboard w' = [])"
  using main_skips_complete_record
    [of "rune (Some [''a'']) (Some [''s''])" rich0 "\<lambda>n. True" "\<lambda>n. Failure ''down''" 0 "[]" 0 world0
        "[rune (Some [''a'']) (Some [''s''])]"]
  by (simp add: rune_def truthy_def world0_def)

text \<open>
  C5. Neither review changes the record: the processment that \<open>process_alternatives\<close> or
  \<open>process_summaries\<close> returns holds the rune definition it was given. So for a record
  with no alternatives the turn of the loop of \<open>main\<close> is the alternatives review and
  nothing more: the summaries review is not run for it, whatever the alternatives review
  did.
\<close>

theorem reviews_keep_the_record:
  "(process_alternatives R op ep p w = Some (Returned p1 w1) \<longrightarrow>
      rune_definition p1 = rune_definition p)
   \<and> (process_summaries R op ep p w = Some (Returned p2 w2) \<longrightarrow>
      rune_definition p2 = rune_definition p)
   \<and> (\<not> truthy (alternatives rd) \<longrightarrow>
      main_body R op ep i rd w =
        process_alternatives R op ep \<lparr>rune_definition = rd, total_tokens = 0\<rparr>
          (emit (''[bold green]'' @ str_nat i @ ''[/] -:'' @ [newline]) w))"
  using process_alternatives_Returned [of R op ep p w p1 w1]
    process_summaries_Returned [of R op ep p w p2 w2]
    main_body_not_alternatives [of rd R op ep i w]
  by blast

theorem reviews_keep_the_record_witness:
  "\<not> truthy (alternatives (rune None None))
   \<and> (\<exists>p1 w1. main_body rich0 (\<lambda>n. True) (\<lambda>n. Completed (Some (completion ''1. uno'' 7))) 0
          (rune None None) world0 = Some (Returned p1 w1)
        \<and> rune_definition p1 = rune None None
        \<and> length (requests w1) = 1 \<and> length (questions w1) = 2)
   \<and> (\<exists>p2 w2. process_summaries rich0 (\<lambda>n. True) (\<lambda>n. Completed (Some (completion ''s'' 7)))
          \<lparr>rune_definition = rune (Some [''a'']) None, total_tokens = 0\<rparr> world0
          = Some (Returned p2 w2)
        \<and> rune_definition p2 = rune (Some [''a'']) None)"
proof -
  let ?op = "\<lambda>n::nat. True"
  let ?ep = "\<lambda>n::nat. Completed (Some (completion ''1. uno'' 7))"
  let ?eq = "\<lambda>n::nat. Completed (Some (completion ''s'' 7))"
  let ?w = "emit (''[bold green]'' @ str_nat 0 @ ''[/] -:'' @ [newline]) world0"
  have h: "\<not> truthy (alternatives (rune None None))" by (simp add: truthy_def rune_def)
  have "\<exists>p1 w1. process_alternatives rich0 ?op ?ep \<lparr>rune_definition = rune None None, total_tokens = 0\<rparr> ?w
      = Some (Returned p1 w1) \<and> length (requests w1) = 1 \<and> length (questions w1) = 2"
    by (simp add: run_defs parse_response_def split_def isdigit_def REGEX_ITEM_match_def
        create_string_from_list_def)
  then obtain p1 w1 where
    a: "process_alternatives rich0 ?op ?ep \<lparr>rune_definition = rune None None, total_tokens = 0\<rparr> ?w
      = Some (Returned p1 w1)" and l: "length (requests w1) = 1" "length (questions w1) = 2"
    by blast
  from reviews_keep_the_record [THEN conjunct1, rule_format, OF a]
  have r1: "rune_definition p1 = rune None None" by simp
  from reviews_keep_the_record [THEN conjunct2, THEN conjunct2, rule_format, OF h,
      of rich0 ?op ?ep 0 world0] a
  have m: "main_body rich0 ?op ?ep 0 (rune None None) world0 = Some (Returned p1 w1)" by simp
  have "\<exists>p2 w2. process_summaries rich0 ?op ?eq
      \<lparr>rune_definition = rune (Some [''a'']) None, total_tokens = 0\<rparr> world0 = Some (Returned p2 w2)"
    by (simp add: run_defs create_string_from_list_def)
  then obtain p2 w2 where
    s: "process_summaries rich0 ?op ?eq
      \<lparr>rune_definition = rune (Some [''a'']) None, total_tokens = 0\<rparr> world0 = Some (Returned p2 w2)"
    by blast
  from reviews_keep_the_record [THEN conjunct2, THEN conjunct1, rule_format, OF s]
  have r2: "rune_definition p2 = rune (Some [''a'']) None" by simp
  from h m r1 l s r2 show ?thesis by blast
qed

text \<open>
  C6. \<open>ask_openai\<close> catches the timeout of the endpoint and nothing else, and repeats the
  same request without a limit: after any number \<open>k\<close> of timeouts, a completion is returned
  and another failure is raised to the caller, in both cases after exactly \<open>k + 1\<close> requests,
  all of them the request of the prompt; and against an endpoint that always times out,
  \<open>ask_openai\<close> never returns.
\<close>

theorem ask_openai_retries_timeouts_only:
  "((\<forall>j<k. is_timeout (ep (length (requests w) + j)))
      \<and> ep (length (requests w) + k) = Completed (Some r) \<longrightarrow>
      (\<exists>w'. ask_openai ep prompt w = Some (Returned r w')
         \<and> requests w' = requests w @ replicate (Suc k) (request_of prompt)))
   \<and> ((\<forall>j<k. is_timeout (ep (length (requests w) + j)))
      \<and> ep (length (requests w) + k) = Failure e \<longrightarrow>
      (\<exists>w'. ask_openai ep prompt w = Some (Raised (OpenAIError e) w')
         \<and> requests w' = requests w @ replicate (Suc k) (request_of prompt)))
   \<and> ((\<forall>j. is_timeout (ep (length (requests w) + j))) \<longrightarrow> ask_openai ep prompt w = None)"
proof (intro conjI impI)
  assume a: "(\<forall>j<k. is_timeout (ep (length (requests w) + j)))
      \<and> ep (length (requests w) + k) = Completed (Some r)"
  then have "\<not> is_timeout (ep (length (requests w) + k))" by (simp add: is_timeout_def)
  from ask_openai_loop_returns [of k ep w "request_of prompt", OF conjunct1 [OF a] this] a
  show "\<exists>w'. ask_openai ep prompt w = Some (Returned r w')
         \<and> requests w' = requests w @ replicate (Suc k) (request_of prompt)"
    by (auto simp: ask_openai_def request_of_def outcome_def)
next
  assume a: "(\<forall>j<k. is_timeout (ep (length (requests w) + j)))
      \<and> ep (length (requests w) + k) = Failure e"
  then have "\<not> is_timeout (ep (length (requests w) + k))" by (simp add: is_timeout_def)
  from ask_openai_loop_returns [of k ep w "request_of prompt", OF conjunct1 [OF a] this] a
  show "\<exists>w'. ask_openai ep prompt w = Some (Raised (OpenAIError e) w')
         \<and> requests w' = requests w @ replicate (Suc k) (request_of prompt)"
    by (auto simp: ask_openai_def request_of_def outcome_def)
next
  assume "\<forall>j. is_timeout (ep (length (requests w) + j))"
  from ask_openai_loop_forever [OF this, of "request_of prompt"]
  show "ask_openai ep prompt w = None"
    by (simp add: ask_openai_def request_of_def)
qed

theorem ask_openai_retries_timeouts_only_witness:
  "is_timeout (Timeout ''slow'')
   \<and> (\<exists>w'. ask_openai (\<lambda>n. if n < 2 then Timeout ''slow'' else Completed (Some (completion ''ok'' 3)))
          ''p'' world0 = Some (Returned (completion ''ok'' 3) w')
        \<and> requests w' = [request_of ''p'', request_of ''p'', request_of ''p''])
   \<and> (\<exists>w'. ask_openai (\<lambda>n. if n < 1 then Timeout ''slow'' else Failure ''down'')
          ''p'' world0 = Some (Raised (OpenAIError ''down'') w')
        \<and> requests w' = [request_of ''p'', request_of ''p''])
   \<and> ask_openai (\<lambda>n. Timeout ''slow'') ''p'' world0 = None"
proof -
  have t: "is_timeout (Timeout ''slow'')" by (simp add: is_timeout_def)
  have 1: "\<exists>w'. ask_openai (\<lambda>n. if n < 2 then Timeout ''slow'' else Completed (Some (completion ''ok'' 3)))
          ''p'' world0 = Some (Returned (completion ''ok'' 3) w')
        \<and> requests w' = [request_of ''p'', request_of ''p'', request_of ''p'']"
    using ask_openai_retries_timeouts_only
      [of 2 "\<lambda>n. if n < 2 then Timeout ''slow'' else Completed (Some (completion ''ok'' 3))"
          world0 "completion ''ok'' 3" "''p''"] t
    by (simp add: world0_def numeral_2_eq_2)
  have 2: "\<exists>w'. ask_openai (\<lambda>n. if n < 1 then Timeout ''slow'' else Failure ''down'')
          ''p'' world0 = Some (Raised (OpenAIError ''down'') w')
        \<and> requests w' = [request_of ''p'', request_of ''p'']"
    using ask_openai_retries_timeouts_only
      [of 1 "\<lambda>n. if n < 1 then Timeout ''slow'' else Failure ''down''"
          world0 _ "''p''" "''down''"] t
    by (simp add: world0_def)
  have 3: "ask_openai (\<lambda>n. Timeout ''slow'') ''p'' world0 = None"
    using ask_openai_retries_timeouts_only [of _ "\<lambda>n. Timeout ''slow''" world0 _ "''p''"] t
    by simp
  from t 1 2 3 show ?thesis by blast
qed

text \<open>
  C7. \<open>create_string_from_list\<close> writes every item between double quotes on a line of its
  own, with a comma after every line but the last: \<open>["x"]\<close> gives \<open>"x"\n\<close>, \<open>["x", "y"]\<close>
  gives \<open>"x",\n"y"\n\<close>, and a list ending in \<open>item\<close> gives the lines of the items before
  it, each with its comma, then the line of \<open>item\<close> without one.
\<close>

theorem create_string_from_list_format:
  "create_string_from_list [''x''] = [CHR 0x22, CHR ''x'', CHR 0x22, CHR 0x0A]
  \<and> create_string_from_list [''x'', ''y''] =
      [CHR 0x22, CHR ''x'', CHR 0x22, CHR '','', CHR 0x0A, CHR 0x22, CHR ''y'', CHR 0x22, CHR 0x0A]
  \<and> (\<forall>items item. create_string_from_list (items @ [item]) =
        concat (map (\<lambda>x. [CHR 0x22] @ x @ [CHR 0x22] @ '','' @ [CHR 0x0A]) items)
          @ [CHR 0x22] @ item @ [CHR 0x22] @ [CHR 0x0A])"
  by (simp add: create_string_from_list_def create_string_from_list_loop_eq dquote_def newline_def)

text \<open>
  C8. The prompt of an inverted rune has \<open>invertida\<close> after the name, a space between, in
  both places where the template has the name; the prompt of a normal rune has the name
  alone in both places, and contains \<open>invertida\<close> exactly when the name or the description
  of the record contains it.
\<close>

theorem process_alternatives_prompt_invertida:
  assumes "name = get_only_the_rune_name (rune_name rd)"
  shows "(type rd = Invert \<longrightarrow> process_alternatives_prompt rd =
            ''Escribe 10 p'' @ [CHR 0xE1] @ ''rrafos que sean variaci'' @ [CHR 0xF3]
            @ ''n del siguiente p'' @ [CHR 0xE1] @ ''rrafo:'' @ [CHR 0x0A, CHR 0x0A]
            @ ''la runa '' @ name @ '' invertida'' @ '': '' @ description rd @ [CHR 0x0A, CHR 0x0A]
            @ ''Pero no te salgas de la runa '' @ name @ '' invertida'' @ [CHR 0x0A])
    \<and> (type rd = Normal \<longrightarrow> process_alternatives_prompt rd =
            ''Escribe 10 p'' @ [CHR 0xE1] @ ''rrafos que sean variaci'' @ [CHR 0xF3]
            @ ''n del siguiente p'' @ [CHR 0xE1] @ ''rrafo:'' @ [CHR 0x0A, CHR 0x0A]
            @ ''la runa '' @ name @ '': '' @ description rd @ [CHR 0x0A, CHR 0x0A]
            @ ''Pero no te salgas de la runa '' @ name @ [CHR 0x0A]
          \<and> (sublist ''invertida'' (process_alternatives_prompt rd)
               \<longleftrightarrow> sublist ''invertida'' name \<or> sublist ''invertida'' (description rd)))"
proof (intro conjI impI)
  assume "type rd = Invert"
  with assms show "process_alternatives_prompt rd =
            ''Escribe 10 p'' @ [CHR 0xE1] @ ''rrafos que sean variaci'' @ [CHR 0xF3]
            @ ''n del siguiente p'' @ [CHR 0xE1] @ ''rrafo:'' @ [CHR 0x0A, CHR 0x0A]
            @ ''la runa '' @ name @ '' invertida'' @ '': '' @ description rd @ [CHR 0x0A, CHR 0x0A]
            @ ''Pero no te salgas de la runa '' @ name @ '' invertida'' @ [CHR 0x0A]"
    by (simp add: process_alternatives_prompt_def Let_def PROMPT_TO_GENERATE_def newline_def)
next
  assume n: "type rd = Normal"
  with assms show "process_alternatives_prompt rd =
            ''Escribe 10 p'' @ [CHR 0xE1] @ ''rrafos que sean variaci'' @ [CHR 0xF3]
            @ ''n del siguiente p'' @ [CHR 0xE1] @ ''rrafo:'' @ [CHR 0x0A, CHR 0x0A]
            @ ''la runa '' @ name @ '': '' @ description rd @ [CHR 0x0A, CHR 0x0A]
            @ ''Pero no te salgas de la runa '' @ name @ [CHR 0x0A]"
    by (simp add: process_alternatives_prompt_def Let_def PROMPT_TO_GENERATE_def newline_def)
  from n assms have "process_alternatives_prompt rd = PROMPT_TO_GENERATE name [] (description rd)"
    by (simp add: process_alternatives_prompt_def Let_def)
  then show "sublist ''invertida'' (process_alternatives_prompt rd)
               \<longleftrightarrow> sublist ''invertida'' name \<or> sublist ''invertida'' (description rd)"
    by (simp only: prompt_normal_sublist)
qed

theorem process_alternatives_prompt_invertida_witness:
  "''FOO'' = get_only_the_rune_name ''RUNA FOO''
   \<and> process_alternatives_prompt
        \<lparr>rune_name = ''RUNA FOO'', description = ''d'', type = Invert,
         alternatives = None, summaries = None\<rparr> =
       ''Escribe 10 p'' @ [CHR 0xE1] @ ''rrafos que sean variaci'' @ [CHR 0xF3]
       @ ''n del siguiente p'' @ [CHR 0xE1] @ ''rrafo:'' @ [CHR 0x0A, CHR 0x0A]
       @ ''la runa FOO invertida: d'' @ [CHR 0x0A, CHR 0x0A]
       @ ''Pero no te salgas de la runa FOO invertida'' @ [CHR 0x0A]
   \<and> \<not> sublist ''invertida'' (process_alternatives_prompt
        \<lparr>rune_name = ''RUNA FOO'', description = ''d'', type = Normal,
         alternatives = None, summaries = None\<rparr>)"
proof -
  have g: "''FOO'' = get_only_the_rune_name ''RUNA FOO''"
    by (simp add: get_only_the_rune_name_def strip_def isspace_def)
  have s: "\<not> sublist ''invertida'' ''FOO''" "\<not> sublist ''invertida'' ''d''"
    by code_simp+
  from process_alternatives_prompt_invertida
    [of "''FOO''" "\<lparr>rune_name = ''RUNA FOO'', description = ''d'', type = Invert,
         alternatives = None, summaries = None\<rparr>"] g
  have 1: "process_alternatives_prompt
        \<lparr>rune_name = ''RUNA FOO'', description = ''d'', type = Invert,
         alternatives = None, summaries = None\<rparr> =
       ''Escribe 10 p'' @ [CHR 0xE1] @ ''rrafos que sean variaci'' @ [CHR 0xF3]
       @ ''n del siguiente p'' @ [CHR 0xE1] @ ''rrafo:'' @ [CHR 0x0A, CHR 0x0A]
       @ ''la runa FOO invertida: d'' @ [CHR 0x0A, CHR 0x0A]
       @ ''Pero no te salgas de la runa FOO invertida'' @ [CHR 0x0A]"
    by simp
  have g': "''FOO'' = get_only_the_rune_name (rune_name
        \<lparr>rune_name = ''RUNA FOO'', description = ''d'', type = Normal,
         alternatives = None, summaries = None\<rparr>)"
    using g by simp
  have n: "type \<lparr>rune_name = ''RUNA FOO'', description = ''d'', type = Normal,
         alternatives = None, summaries = None\<rparr> = Normal"
    by simp
  from process_alternatives_prompt_invertida
    [OF g', THEN conjunct2, rule_format, OF n, THEN conjunct2] s
  have 2: "\<not> sublist ''invertida'' (process_alternatives_prompt
        \<lparr>rune_name = ''RUNA FOO'', description = ''d'', type = Normal,
         alternatives = None, summaries = None\<rparr>)"
    by simp
  from g 1 2 show ?thesis by blast
qed

theorem prompt_of_normal_rune_with_invertida:
  "type \<lparr>rune_name = ''RUNA FOO'', description = ''la forma invertida'', type = Normal,
         alternatives = None, summaries = None\<rparr> = Normal
   \<and> sublist ''invertida'' (process_alternatives_prompt
        \<lparr>rune_name = ''RUNA FOO'', description = ''la forma invertida'', type = Normal,
         alternatives = None, summaries = None\<rparr>)"
proof -
  have "process_alternatives_prompt
        \<lparr>rune_name = ''RUNA FOO'', description = ''la forma invertida'', type = Normal,
         alternatives = None, summaries = None\<rparr>
      = (''Escribe 10 p'' @ [CHR 0xE1] @ ''rrafos que sean variaci'' @ [CHR 0xF3]
            @ ''n del siguiente p'' @ [CHR 0xE1] @ ''rrafo:'' @ [CHR 0x0A, CHR 0x0A]
            @ ''la runa FOO: la forma '') @ ''invertida'' @ ([CHR 0x0A, CHR 0x0A]
            @ ''Pero no te salgas de la runa FOO'' @ [CHR 0x0A])"
    by (simp add: process_alternatives_prompt_def Let_def PROMPT_TO_GENERATE_def newline_def
        get_only_the_rune_name_def strip_def isspace_def)
  then have "sublist ''invertida'' (process_alternatives_prompt
        \<lparr>rune_name = ''RUNA FOO'', description = ''la forma invertida'', type = Normal,
         alternatives = None, summaries = None\<rparr>)"
    by (simp only: sublist_appendI)
  then show ?thesis by simp
qed

text \<open>
  C9. The tokens are added up: a review that returns has added to the \<open>total_tokens\<close> of
  its processment the \<open>total_tokens\<close> reported by the calls of the endpoint made during
  it, and a run of \<open>main\<close> that returns ends with the sum of the \<open>total_tokens\<close> reported by
  all the calls of the run. After two completions reporting 10 and 15 the total is 25.
\<close>

theorem tokens_are_added_up:
  "(process_alternatives R op ep p w = Some (Returned p1 w1) \<longrightarrow>
      total_tokens p1 = total_tokens p + reported ep (length (requests w)) (length (requests w1)))
   \<and> (process_summaries R op ep p w = Some (Returned p2 w2) \<longrightarrow>
      total_tokens p2 = total_tokens p + reported ep (length (requests w)) (length (requests w2)))
   \<and> (main R op ep rds w = Some (Returned tokens w3) \<longrightarrow>
      tokens = reported ep (length (requests w)) (length (requests w3)))"
  using process_alternatives_Returned [of R op ep p w p1 w1]
    process_summaries_Returned [of R op ep p w p2 w2]
    main_Returned [of R op ep rds w tokens w3]
  by blast

theorem tokens_are_added_up_witness:
  "\<exists>w'. main rich0 (\<lambda>n. True) (\<lambda>n. Completed (Some (completion ''s'' (if n = 0 then 10 else 15))))
       [rune (Some [''a'', ''b'']) None] world0 = Some (Returned 25 w')
     \<and> length (requests w') = 2
     \<and> reported (\<lambda>n. Completed (Some (completion ''s'' (if n = 0 then 10 else 15)))) 0 2 = 25"
proof -
  have "\<exists>t w'. main rich0 (\<lambda>n. True) (\<lambda>n. Completed (Some (completion ''s'' (if n = 0 then 10 else 15))))
       [rune (Some [''a'', ''b'']) None] world0 = Some (Returned t w')
     \<and> t = 25 \<and> length (requests w') = 2"
    by (simp add: run_defs create_string_from_list_def dquote_def newline_def)
  then obtain w' where
    E: "main rich0 (\<lambda>n. True) (\<lambda>n. Completed (Some (completion ''s'' (if n = 0 then 10 else 15))))
       [rune (Some [''a'', ''b'']) None] world0 = Some (Returned 25 w')"
    and L: "length (requests w') = 2"
    by blast
  from tokens_are_added_up [THEN conjunct2, THEN conjunct2, rule_format, OF E] L
  have "reported (\<lambda>n. Completed (Some (completion ''s'' (if n = 0 then 10 else 15)))) 0 2 = 25"
    by (simp add: world0_def)
  with E L show ?thesis by blast
qed

text \<open>
  C10. When every prompt of \<open>process_summaries\<close> is printed, the operator declines to
  ask for every alternative and then confirms the copy, \<open>process_summaries\<close> ends in the
  \<open>AssertionError\<close> of \<open>assert len(copied) > 0\<close>, having sent no request and copied
  nothing: the list of summaries is empty, and \<open>create_string_from_list\<close> of the empty
  list is the empty string. A run of \<open>main\<close> that starts with such a record, the record
  having alternatives and no summaries, ends in this \<open>AssertionError\<close>: the run is aborted.
  The operator is asked about an alternative only after its prompt has been printed
  (line 150 comes before line 151), so an operator who declines every alternative has
  seen every prompt printed; a prompt that \<open>print\<close> rejects ends the review in
  \<open>MarkupError\<close> instead, with no question put.
\<close>

theorem process_summaries_assertion_fails:
  assumes "alternatives (rune_definition p) = Some alts"
    and "\<forall>j<length alts. \<not> markup_error R (summary_line j (alts ! j))"
    and "\<forall>j<length alts. \<not> op (length (questions w) + j)"
    and "op (length (questions w) + length alts)"
  shows "(\<exists>w'. process_summaries R op ep p w = Some (Raised AssertionError w')
            \<and> requests w' = requests w \<and> clipboard w' = clipboard w)
         \<and> create_string_from_list [] = []
         \<and> (alts \<noteq> [] \<and> \<not> truthy (summaries (rune_definition p)) \<longrightarrow>
              (\<exists>w'. main R op ep (rune_definition p # rest) w
                 = Some (Raised AssertionError w')))"
proof (intro conjI impI)
  show "\<exists>w'. process_summaries R op ep p w = Some (Raised AssertionError w')
            \<and> requests w' = requests w \<and> clipboard w' = clipboard w"
    by (rule process_summaries_all_declined [OF assms])
  show "create_string_from_list [] = []" by (simp add: create_string_from_list_def)
next
  assume a: "alts \<noteq> [] \<and> \<not> truthy (summaries (rune_definition p))"
  let ?rd = "rune_definition p"
  let ?w0 = "emit (str_nat (length (?rd # rest)) @ '' loaded'') w"
  let ?w1 = "emit (''[bold green]'' @ str_nat 0 @ ''[/] -:'' @ [newline]) ?w0"
  let ?p = "\<lparr>rune_definition = ?rd, total_tokens = 0\<rparr>"
  have t: "truthy (alternatives ?rd)" using a assms(1) by (simp add: truthy_def)
  have q: "questions ?w1 = questions w" by simp
  from process_summaries_all_declined [of ?p alts R op ?w1 ep] assms
  obtain w' where s: "process_summaries R op ep ?p ?w1 = Some (Raised AssertionError w')"
    by (auto simp: q)
  have "main_body R op ep 0 ?rd ?w0 = Some (Raised AssertionError w')"
    unfolding main_body_def Let_def print_index and_then_def using t a s by simp
  then have "main_loop R op ep 0 (?rd # rest) 0 ?w0 = Some (Raised AssertionError w')"
    using a by simp
  then have "main R op ep (?rd # rest) w = Some (Raised AssertionError w')"
    unfolding main_def print_loaded and_then_def by simp
  then show "\<exists>w'. main R op ep (rune_definition p # rest) w = Some (Raised AssertionError w')"
    by blast
qed

theorem process_summaries_assertion_fails_witness:
  "alternatives (rune_definition \<lparr>rune_definition = rune (Some [''a'', ''b'']) None,
       total_tokens = 0\<rparr>) = Some [''a'', ''b'']
   \<and> \<not> markup_error rich0 (summary_line 0 ''a'') \<and> \<not> markup_error rich0 (summary_line 1 ''b'')
   \<and> \<not> (\<lambda>n. n = 2) (0::nat) \<and> \<not> (\<lambda>n. n = 2) (1::nat) \<and> (\<lambda>n. n = 2) (2::nat)
   \<and> (\<exists>w'. process_summaries rich0 (\<lambda>n. n = 2) (\<lambda>n. Failure ''down'')
          \<lparr>rune_definition = rune (Some [''a'', ''b'']) None, total_tokens = 0\<rparr> world0
          = Some (Raised AssertionError w') \<and> requests w' = [] \<and> clipboard w' = [])
   \<and> (\<exists>w'. main rich0 (\<lambda>n. n = 2) (\<lambda>n. Failure ''down'')
          [rune (Some [''a'', ''b'']) None] world0 = Some (Raised AssertionError w'))"
proof -
  have m: "\<not> markup_error rich0 (summary_line 0 ''a'')"
    "\<not> markup_error rich0 (summary_line 1 ''b'')"
    by (simp_all add: summary_line_def str_nat.simps PROMPT_TO_SUMMARY_def markup_error_def
        markup_defs)
  then have h: "\<forall>j<length [''a'', ''b''].
      \<not> markup_error rich0 (summary_line j ([''a'', ''b''] ! j))"
    by (simp add: less_Suc_eq numeral_2_eq_2)
  from process_summaries_assertion_fails
    [of "\<lparr>rune_definition = rune (Some [''a'', ''b'']) None, total_tokens = 0\<rparr>"
        "[''a'', ''b'']" rich0 "\<lambda>n. n = 2" world0 "\<lambda>n. Failure ''down''" "[]", OF _ h] m
  show ?thesis
    by (simp add: rune_def world0_def truthy_def)
qed

end
